theory Spec2Isabelle
  imports Main "HOL-Library.Word"
begin

section \<open>The wallet service of package wallet\<close>

text \<open>
  A shallow embedding of the wallet service (type \<open>Service\<close> and its methods). The service
  keeps a Go map from wallet id to wallet and a second map from the string form of a
  wallet's first address to the wallet id. Strings and byte slices are \<open>string\<close> (a list
  of bytes), \<open>uint64\<close> is \<open>64 word\<close>, a Go map is a partial function, and every method
  takes the service and returns its result together with the service afterwards.
\<close>

subsection \<open>Errors\<close>

text \<open>
  The source has two things called \<open>ErrWalletNotExist\<close>: the package variable made by
  \<open>errors.New\<close> (no wallet id in it) and the struct with the field \<open>id\<close>. They are two
  constructors here. \<open>ErrDuplicateWallet id\<close> is the value of
  \<open>fmt.Errorf("duplicate wallet with %v", id)\<close>, \<open>ErrWrapped msg e\<close> the value of a
  \<open>fmt.Errorf\<close> that wraps \<open>e\<close>, \<open>ErrExternal\<close> an error a collaborator returned, and
  \<open>Panic\<close> a run-time panic (index out of range, nil dereference).
\<close>

datatype error =
    ErrWalletNotExist
  | ErrWalletNotExistID string
  | ErrWalletApiDisabled
  | ErrDuplicateWallet string
  | ErrWalletNameConflict
  | ErrWrapped string error
  | ErrExternal string
  | Panic string

subsection \<open>Wallets\<close>

text \<open>
  Modelled from the spec: the types \<open>Entry\<close>, \<open>Wallet\<close> and \<open>Options\<close> are declared
  outside the service's file. The fields are those of the spec's data model, under the
  names the service uses to read and write them (\<open>w.Entries\<close>, \<open>Entries[i].Address\<close>,
  \<open>Secret\<close>, \<open>EncryptedSeckey\<close>, \<open>w.Filename()\<close>, \<open>w.Version()\<close>, \<open>w.seed()\<close>,
  \<open>w.lastSeed()\<close>, \<open>w.setLabel\<close>). An address is kept in its string form, the form the
  first-address map is keyed on. A secret key is a 32-byte array.

  The seed and the last-seed checkpoint are "either plaintext strings or opaque encrypted
  blobs", so each is a value of one of two forms; \<open>seed_text\<close> is the string \<open>w.seed()\<close>
  and \<open>w.lastSeed()\<close> return, whichever the form. The flag \<open>encrypted\<close> is not stored: it
  is "true iff seed/last_seed/all entry secrets are encrypted", where an entry's secret
  is encrypted when its plaintext key field holds the zero value and its encrypted key
  is non-empty (the data model's invariant).
\<close>

datatype seed_value = PlainSeed string | EncryptedSeed string

fun seed_text :: "seed_value \<Rightarrow> string" where
  "seed_text (PlainSeed s) = s"
| "seed_text (EncryptedSeed s) = s"


record Entry =
  Address :: string
  Public :: string
  Secret :: string
  EncryptedSeckey :: string

record Wallet =
  Filename :: string
  label :: string
  version :: string
  seed :: seed_value
  lastSeed :: seed_value
  Entries :: "Entry list"

record Options =
  Label :: string
  Seed :: string

definition SecKey_zero :: string where
  \<comment> \<open>\<open>cipher.SecKey{}\<close>: the zero value of a 32-byte array\<close>
  "SecKey_zero = replicate 32 (CHR 0x00)"


definition GetID :: "Wallet \<Rightarrow> string" where
  \<comment> \<open>Modelled from the spec: the wallet id is also the persisted filename.\<close>
  "GetID w = Filename w"

definition clone :: "Wallet \<Rightarrow> Wallet" where
  \<comment> \<open>Modelled from the spec: a deep copy; values are not shared here, so it is the
     wallet itself. \<open>w.Copy()\<close> is the same.\<close>
  "clone w = w"

definition Copy :: "Wallet \<Rightarrow> Wallet" where
  "Copy w = w"

definition GetAddresses_of :: "Wallet \<Rightarrow> string list" where
  \<comment> \<open>Modelled from the spec: \<open>w.GetAddresses()\<close>, the addresses of the entries in order.\<close>
  "GetAddresses_of w = map Address (Entries w)"

subsection \<open>Collaborators\<close>

text \<open>
  What the service calls but does not define is a parameter: the encryption primitive
  \<open>Encrypt(data, password)\<close>, the persistence gateway (\<open>Save\<close>, \<open>LoadWallets\<close>), the
  wallet constructor, key derivation, the file system calls (\<open>filepath.Join\<close> among
  them) and the generators of names and seeds. \<open>LoadWallets\<close> returns the loaded map as
  the list of its pairs in
  the order the \<open>range\<close> loop of \<open>removeDup\<close> visits them. \<open>NewWalletFilename k\<close> is the
  name the k-th call of \<open>NewWalletFilename()\<close> returns.
\<close>

datatype stat_result = NotExist | StatError | IsFile | IsDir

type_synonym BalanceGetter = "string list \<Rightarrow> error + 64 word list"

record Env =
  Version :: string
  encrypt_data :: "string \<Rightarrow> string \<Rightarrow> error + string"
  Save :: "string \<Rightarrow> Wallet \<Rightarrow> error option"
  LoadWallets :: "string \<Rightarrow> error + (string \<times> Wallet) list"
  NewWallet :: "string \<Rightarrow> Options \<Rightarrow> error + Wallet"
  derive :: "string \<Rightarrow> string \<times> Entry"
  gen_error :: "Wallet \<Rightarrow> 64 word \<Rightarrow> error option"
  MkdirAll :: "string \<Rightarrow> error option"
  Stat :: "string \<Rightarrow> stat_result"
  os_Remove :: "string \<Rightarrow> error option"
  filepath_Join :: "string \<Rightarrow> string \<Rightarrow> string"
  NewWalletFilename :: "nat \<Rightarrow> string"
  NewDefaultMnemomic :: "error + string"
  sign_transaction :: "Wallet \<Rightarrow> 64 word \<Rightarrow> 64 word \<Rightarrow> string \<Rightarrow> error + string"

text \<open>
  Modelled from the spec: \<open>Wallet.GenerateAddresses\<close> (append-only, deterministic from the
  last-seed checkpoint) and \<open>Wallet.ScanAddresses\<close> (the Scan-Ahead Protocol) live in the
  wallet type's file. \<open>derive\<close> maps a seed checkpoint to the next checkpoint and the
  entry derived from it; \<open>gen_error\<close> says when generation fails. A derived checkpoint
  is a plaintext seed.
\<close>

fun derive_entries :: "(string \<Rightarrow> string \<times> Entry) \<Rightarrow> string \<Rightarrow> nat \<Rightarrow> string \<times> Entry list" where
  "derive_entries d s 0 = (s, [])"
| "derive_entries d s (Suc n) =
     (case d s of (s', e) \<Rightarrow>
        (case derive_entries d s' n of (s'', es) \<Rightarrow> (s'', e # es)))"

definition GenerateAddresses :: "Env \<Rightarrow> Wallet \<Rightarrow> 64 word \<Rightarrow> Wallet \<times> (error + string list)" where
  "GenerateAddresses env w num =
     (case gen_error env w num of
        Some err \<Rightarrow> (w, Inl err)
      | None \<Rightarrow>
          (case derive_entries (derive env) (seed_text (lastSeed w)) (unat num) of
             (s', es) \<Rightarrow> (w\<lparr>Entries := Entries w @ es, lastSeed := PlainSeed s'\<rparr>, Inr (map Address es))))"

fun keepNum :: "64 word list \<Rightarrow> nat" where
  \<comment> \<open>one more than the highest index with a strictly positive balance, 0 when there is none\<close>
  "keepNum [] = 0"
| "keepNum (b # bs) = (if keepNum bs = 0 then (if 0 < b then 1 else 0) else Suc (keepNum bs))"

definition ScanAddresses :: "Env \<Rightarrow> Wallet \<Rightarrow> 64 word \<Rightarrow> BalanceGetter \<Rightarrow> error + Wallet" where
  "ScanAddresses env w scanN bg =
     (case gen_error env w scanN of
        Some err \<Rightarrow> Inl err
      | None \<Rightarrow>
          (case derive_entries (derive env) (seed_text (lastSeed w)) (unat scanN) of
             (_, cands) \<Rightarrow>
               (case bg (map Address cands) of
                  Inl err \<Rightarrow> Inl err
                | Inr bals \<Rightarrow>
                    (case derive_entries (derive env) (seed_text (lastSeed w)) (min (keepNum bals) (length cands)) of
                       (s', kept) \<Rightarrow> Inr (w\<lparr>Entries := Entries w @ kept, lastSeed := PlainSeed s'\<rparr>)))))"

subsection \<open>The collection of wallets\<close>

text \<open>
  Modelled from the spec: the type \<open>Wallets\<close> (a map from wallet id to wallet, unique ids)
  and its methods \<open>Add\<close>, \<open>Remove\<close>, \<open>Get\<close>, \<open>set\<close> and \<open>update\<close> are declared outside the
  service's file. \<open>Add\<close> can fail (the service tests its error); it is taken to refuse an
  id that is already a key. The map holds pointers: \<open>GetWallets\<close> fills a \<open>Wallets\<close> with
  the results of \<open>clone()\<close>, which \<open>Encrypt\<close> returns as a \<open>*Wallet\<close>, and \<open>update\<close> takes a
  closure on \<open>*Wallet\<close>. \<open>Get\<close> is the map lookup: \<open>getWallet\<close> clones its result before
  handing it out and \<open>NewAddresses\<close> never writes a wallet back, so \<open>Get\<close> returns the
  stored wallet itself and a write through it is a write to the stored wallet
  (\<open>store\<close> below). No two ids share a wallet, so the stored wallet is named by its id.
\<close>

type_synonym Wallets = "string \<rightharpoonup> Wallet"

definition Wallets_Add :: "Wallets \<Rightarrow> Wallet \<Rightarrow> error + Wallets" where
  "Wallets_Add wlts w =
     (if wlts (Filename w) \<noteq> None then Inl ErrWalletNameConflict
      else Inr (wlts(Filename w \<mapsto> w)))"

definition Wallets_Remove :: "Wallets \<Rightarrow> string \<Rightarrow> Wallets" where
  "Wallets_Remove wlts wltID = wlts(wltID := None)"

definition Wallets_set :: "Wallets \<Rightarrow> Wallet \<Rightarrow> Wallets" where
  "Wallets_set wlts w = wlts(Filename w \<mapsto> clone w)"

subsection \<open>The service\<close>

text \<open>
  \<open>dirlog\<close> is not a field of the Go struct: it records, in order, every call that
  touches the wallet directory, so that "the directory is not touched" can be stated.
\<close>

datatype dir_op =
    OpMkdirAll string
  | OpLoadWallets string
  | OpSave string string
  | OpStat string
  | OpRemove string

record Service =
  wallets :: Wallets
  firstAddrIDMap :: "string \<rightharpoonup> string"
  disableWalletAPI :: bool
  WalletDirectory :: string
  dirlog :: "dir_op list"

definition store :: "Service \<Rightarrow> string \<Rightarrow> Wallet \<Rightarrow> Service" where
  \<comment> \<open>a write through the pointer \<open>serv.wallets.Get(wltID)\<close> returned\<close>
  "store serv wltID w = serv\<lparr>wallets := (wallets serv)(wltID \<mapsto> w)\<rparr>"

definition logged :: "dir_op \<Rightarrow> Service \<Rightarrow> Service" where
  "logged op serv = serv\<lparr>dirlog := dirlog serv @ [op]\<rparr>"

text \<open>
  \<open>Service.loadWallet\<close>. \<open>scanFirst\<close> is its block
  \<open>if scanN > 1 && bg != nil { w.ScanAddresses(scanN-1, bg) }\<close>.
\<close>

definition scanFirst :: "Env \<Rightarrow> Wallet \<Rightarrow> 64 word \<Rightarrow> BalanceGetter option \<Rightarrow> error + Wallet" where
  "scanFirst env w scanN bg =
     (case bg of
        None \<Rightarrow> Inr w
      | Some g \<Rightarrow> if 1 < scanN then ScanAddresses env w (scanN - 1) g else Inr w)"

definition loadWallet ::
  "Env \<Rightarrow> Service \<Rightarrow> string \<Rightarrow> Options \<Rightarrow> 64 word \<Rightarrow> BalanceGetter option \<Rightarrow> (error + Wallet) \<times> Service" where
  "loadWallet env serv wltName options scanN bg =
     (case NewWallet env wltName options of
        Inl err \<Rightarrow> (Inl err, serv)
      | Inr w0 \<Rightarrow>
          (let w1 = fst (GenerateAddresses env w0 1) in
           case Entries w1 of
             [] \<Rightarrow> (Inl (Panic ''index out of range''), serv)
           | e0 # _ \<Rightarrow>
               (case firstAddrIDMap serv (Address e0) of
                  Some wid \<Rightarrow> (Inl (ErrDuplicateWallet wid), serv)
                | None \<Rightarrow>
                    (case scanFirst env w1 scanN bg of
                       Inl err \<Rightarrow> (Inl err, serv)
                     | Inr w2 \<Rightarrow>
                         (case Wallets_Add (wallets serv) w2 of
                            Inl err \<Rightarrow> (Inl err, serv)
                          | Inr wlts \<Rightarrow>
                              (let serv1 = logged (OpSave (WalletDirectory serv) (Filename w2))
                                             (serv\<lparr>wallets := wlts\<rparr>) in
                               case Save env (WalletDirectory serv) w2 of
                                 Some err \<Rightarrow>
                                   (Inl err, serv1\<lparr>wallets := Wallets_Remove (wallets serv1) (GetID w2)\<rparr>)
                               | None \<Rightarrow>
                                   (case Entries w2 of
                                      [] \<Rightarrow> (Inl (Panic ''index out of range''), serv1)
                                    | e # _ \<Rightarrow>
                                        (Inr (Copy w2),
                                         serv1\<lparr>firstAddrIDMap :=
                                                 (firstAddrIDMap serv1)(Address e \<mapsto> Filename w2)\<rparr>))))))))"

text \<open>
  \<open>Service.generateUniqueWalletFilename\<close>: the loop asks for names until one is not a
  key of the collection. It need not end, so not returning is the value \<open>None\<close>.
\<close>

partial_function (option) generateUniqueWalletFilename :: "Env \<Rightarrow> Service \<Rightarrow> nat \<Rightarrow> string option" where
  "generateUniqueWalletFilename env serv k =
     (if wallets serv (NewWalletFilename env k) = None then Some (NewWalletFilename env k)
      else generateUniqueWalletFilename env serv (Suc k))"

declare generateUniqueWalletFilename.simps [code]

text \<open>\<open>Service.CreateWallet\<close>\<close>

definition CreateWallet ::
  "Env \<Rightarrow> Service \<Rightarrow> string \<Rightarrow> Options \<Rightarrow> ((error + Wallet) \<times> Service) option" where
  "CreateWallet env serv wltName options =
     (if disableWalletAPI serv then Some (Inl ErrWalletApiDisabled, serv)
      else
        (case (if wltName = [] then generateUniqueWalletFilename env serv 0 else Some wltName) of
           None \<Rightarrow> None
         | Some nm \<Rightarrow> Some (loadWallet env serv nm options 0 None)))"

text \<open>\<open>Service.getWallet\<close>, \<open>Service.GetWallet\<close>, \<open>Service.GetWallets\<close>, \<open>Service.GetAddresses\<close>\<close>

definition getWallet :: "Service \<Rightarrow> string \<Rightarrow> error + Wallet" where
  "getWallet serv wltID =
     (case wallets serv wltID of
        None \<Rightarrow> Inl ErrWalletNotExist
      | Some w \<Rightarrow> Inr (clone w))"

definition GetWallet :: "Service \<Rightarrow> string \<Rightarrow> error + Wallet" where
  "GetWallet serv wltID = getWallet serv wltID"

definition GetWallets :: "Service \<Rightarrow> Wallets" where
  "GetWallets serv = map_option clone \<circ> wallets serv"

definition GetAddresses :: "Service \<Rightarrow> string \<Rightarrow> error + string list" where
  "GetAddresses serv wltID =
     (case wallets serv wltID of
        None \<Rightarrow> Inl (ErrWalletNotExistID wltID)
      | Some w \<Rightarrow> Inr (GetAddresses_of w))"

text \<open>\<open>Service.ScanAheadWalletAddresses\<close>\<close>

definition ScanAheadWalletAddresses ::
  "Env \<Rightarrow> Service \<Rightarrow> string \<Rightarrow> 64 word \<Rightarrow> BalanceGetter \<Rightarrow> (error + Wallet) \<times> Service" where
  "ScanAheadWalletAddresses env serv wltName scanN bg =
     (case getWallet serv wltName of
        Inl err \<Rightarrow> (Inl err, serv)
      | Inr w \<Rightarrow>
          (case ScanAddresses env w scanN bg of
             Inl err \<Rightarrow> (Inl err, serv)
           | Inr w' \<Rightarrow>
               (let serv1 = logged (OpSave (WalletDirectory serv) (Filename w')) serv in
                case Save env (WalletDirectory serv) w' of
                  Some err \<Rightarrow> (Inl err, serv1)
                | None \<Rightarrow> (Inr (Copy w'), serv1\<lparr>wallets := Wallets_set (wallets serv1) w'\<rparr>))))"

text \<open>
  \<open>Service.Encrypt\<close>. \<open>w.setSeed(sseed)\<close> and \<open>w.setLastSeed(lsseed)\<close> store what the primitive
  returned, so the seed and the last seed are then encrypted blobs. The loop over the
  entries writes each entry as soon as its key is encrypted and returns at the first
  failure, leaving the entries before it written.
\<close>

fun encryptEntries :: "Env \<Rightarrow> string \<Rightarrow> Entry list \<Rightarrow> Entry list \<times> error option" where
  "encryptEntries env password [] = ([], None)"
| "encryptEntries env password (e # es) =
     (case encrypt_data env (Secret e) password of
        Inl err \<Rightarrow> (e # es, Some err)
      | Inr sk \<Rightarrow>
          (case encryptEntries env password es of
             (es', r) \<Rightarrow> (e\<lparr>EncryptedSeckey := sk, Secret := SecKey_zero\<rparr> # es', r)))"

definition removeBackup :: "Env \<Rightarrow> Service \<Rightarrow> Wallet \<Rightarrow> (error + Wallet) \<times> Service" where
  \<comment> \<open>the body of \<open>if oldVersion == "0.1"\<close>, then the final clone\<close>
  "removeBackup env serv w =
     (let path = filepath_Join env (WalletDirectory serv) (Filename w @ ''.bak'');
          serv1 = logged (OpStat path) serv in
      case Stat env path of
        NotExist \<Rightarrow> (Inr (clone w), serv1)
      | StatError \<Rightarrow> (Inl (Panic ''nil pointer dereference''), serv1)
      | IsDir \<Rightarrow> (Inr (clone w), serv1)
      | IsFile \<Rightarrow>
          (case os_Remove env path of
             Some err \<Rightarrow> (Inl err, logged (OpRemove path) serv1)
           | None \<Rightarrow> (Inr (clone w), logged (OpRemove path) serv1)))"

definition Encrypt :: "Env \<Rightarrow> Service \<Rightarrow> string \<Rightarrow> string \<Rightarrow> (error + Wallet) \<times> Service" where
  "Encrypt env serv wltID password =
     (case wallets serv wltID of
        None \<Rightarrow> (Inl (ErrWalletNotExistID wltID), serv)
      | Some w \<Rightarrow>
          (let oldVersion = version w;
               w1 = w\<lparr>version := Version env\<rparr> in
           case encrypt_data env (seed_text (seed w1)) password of
             Inl err \<Rightarrow> (Inl err, store serv wltID w1)
           | Inr sseed \<Rightarrow>
               (let w2 = w1\<lparr>seed := EncryptedSeed sseed\<rparr> in
                case encrypt_data env (seed_text (lastSeed w2)) password of
                  Inl err \<Rightarrow> (Inl err, store serv wltID w2)
                | Inr lsseed \<Rightarrow>
                    (let w3 = w2\<lparr>lastSeed := EncryptedSeed lsseed\<rparr> in
                     case encryptEntries env password (Entries w3) of
                       (es, Some err) \<Rightarrow> (Inl err, store serv wltID (w3\<lparr>Entries := es\<rparr>))
                     | (es, None) \<Rightarrow>
                         (let w4 = w3\<lparr>Entries := es\<rparr>;
                              serv4 = logged (OpSave (WalletDirectory serv) (Filename w4))
                                        (store serv wltID w4) in
                          case Save env (WalletDirectory serv) w4 of
                            Some err \<Rightarrow> (Inl err, serv4)
                          | None \<Rightarrow>
                              if oldVersion = ''0.1'' then removeBackup env serv4 w4
                              else (Inr (clone w4), serv4))))))"

text \<open>\<open>Service.NewAddresses\<close>\<close>

definition NewAddresses ::
  "Env \<Rightarrow> Service \<Rightarrow> string \<Rightarrow> 64 word \<Rightarrow> (error + string list) \<times> Service" where
  "NewAddresses env serv wltID num =
     (case wallets serv wltID of
        None \<Rightarrow> (Inl (ErrWalletNotExistID wltID), serv)
      | Some w \<Rightarrow>
          (case GenerateAddresses env w num of
             (w', Inl err) \<Rightarrow> (Inl err, store serv wltID w')
           | (w', Inr addrs) \<Rightarrow>
               (let serv1 = logged (OpSave (WalletDirectory serv) (Filename w'))
                              (store serv wltID w') in
                case Save env (WalletDirectory serv) w' of
                  Some err \<Rightarrow> (Inl err, serv1)
                | None \<Rightarrow> (Inr addrs, serv1))))"

text \<open>\<open>Service.CreateAndSignTransaction\<close>: the lookup, then the wallet's own method.\<close>

definition CreateAndSignTransaction ::
  "Env \<Rightarrow> Service \<Rightarrow> string \<Rightarrow> 64 word \<Rightarrow> 64 word \<Rightarrow> string \<Rightarrow> error + string" where
  "CreateAndSignTransaction env serv wltID headTime coins dest =
     (case wallets serv wltID of
        None \<Rightarrow> Inl (ErrWalletNotExistID wltID)
      | Some w \<Rightarrow> sign_transaction env w headTime coins dest)"

text \<open>
  \<open>Service.UpdateWalletLabel\<close>. Modelled from the spec: \<open>Wallets.update\<close> fails with
  NotFound(id) when the id is absent and otherwise applies the closure to the stored
  wallet.
\<close>

definition UpdateWalletLabel :: "Env \<Rightarrow> Service \<Rightarrow> string \<Rightarrow> string \<Rightarrow> error option \<times> Service" where
  "UpdateWalletLabel env serv wltID lbl =
     (case wallets serv wltID of
        None \<Rightarrow> (Some (ErrWalletNotExistID wltID), serv)
      | Some w \<Rightarrow>
          (let wlt = w\<lparr>label := lbl\<rparr>;
               serv1 = logged (OpSave (WalletDirectory serv) (Filename wlt)) (store serv wltID wlt)
           in (Save env (WalletDirectory serv) wlt, serv1)))"

text \<open>\<open>Service.Remove\<close>\<close>

definition Remove :: "Service \<Rightarrow> string \<Rightarrow> Service" where
  "Remove serv wltID = serv\<lparr>wallets := Wallets_Remove (wallets serv) wltID\<rparr>"

text \<open>
  \<open>Service.removeDup\<close>. The first loop ranges over the loaded wallets in the order of the
  list, with the first-address map and the list of ids to remove as its state;
  \<open>wlts.Get(id)\<close> looks into the whole loaded map, and a miss there is a nil
  dereference at \<open>pw.Entries\<close>. The second loop removes the recorded ids.
\<close>

fun removeDup_loop ::
  "Wallets \<Rightarrow> (string \<times> Wallet) list \<Rightarrow> (string \<rightharpoonup> string) \<Rightarrow> string list
     \<Rightarrow> error + (string \<rightharpoonup> string) \<times> string list" where
  "removeDup_loop wlts [] idx rmWltIDS = Inr (idx, rmWltIDS)"
| "removeDup_loop wlts ((wltID, wlt) # rest) idx rmWltIDS =
     (case Entries wlt of
        [] \<Rightarrow> removeDup_loop wlts rest idx (rmWltIDS @ [wltID])
      | e0 # _ \<Rightarrow>
          (case idx (Address e0) of
             Some wid \<Rightarrow>
               (case wlts wid of
                  None \<Rightarrow> Inl (Panic ''nil pointer dereference'')
                | Some pw \<Rightarrow>
                    if length (Entries pw) \<ge> length (Entries wlt)
                    then removeDup_loop wlts rest idx (rmWltIDS @ [wltID])
                    else removeDup_loop wlts rest (idx(Address e0 \<mapsto> wltID)) (rmWltIDS @ [wid]))
           | None \<Rightarrow> removeDup_loop wlts rest (idx(Address e0 \<mapsto> wltID)) rmWltIDS))"

definition removeDup :: "Service \<Rightarrow> (string \<times> Wallet) list \<Rightarrow> error + (string \<times> Wallet) list \<times> Service" where
  "removeDup serv wlts =
     (case removeDup_loop (map_of wlts) wlts (firstAddrIDMap serv) [] of
        Inl err \<Rightarrow> Inl err
      | Inr (idx, rmWltIDS) \<Rightarrow>
          Inr (filter (\<lambda>kw. fst kw \<notin> set rmWltIDS) wlts, serv\<lparr>firstAddrIDMap := idx\<rparr>))"

text \<open>\<open>Service.ReloadWallets\<close>\<close>

definition ReloadWallets :: "Env \<Rightarrow> Service \<Rightarrow> error option \<times> Service" where
  "ReloadWallets env serv =
     (if disableWalletAPI serv then (Some ErrWalletApiDisabled, serv)
      else
        (let serv1 = logged (OpLoadWallets (WalletDirectory serv)) serv in
         case LoadWallets env (WalletDirectory serv) of
           Inl err \<Rightarrow> (Some err, serv1)
         | Inr wl \<Rightarrow>
             (case removeDup (serv1\<lparr>firstAddrIDMap := Map.empty\<rparr>) wl of
                Inl err \<Rightarrow> (Some err, serv1\<lparr>firstAddrIDMap := Map.empty\<rparr>)
              | Inr (survivors, serv2) \<Rightarrow> (None, serv2\<lparr>wallets := map_of survivors\<rparr>))))"

text \<open>\<open>NewService\<close>\<close>

definition disabledService :: Service where
  \<comment> \<open>the struct literal of \<open>NewService\<close> with the flag set: nil collection, empty map\<close>
  "disabledService =
     \<lparr>wallets = Map.empty, firstAddrIDMap = Map.empty, disableWalletAPI = True,
      WalletDirectory = [], dirlog = []\<rparr>"

definition NewService :: "Env \<Rightarrow> string \<Rightarrow> bool \<Rightarrow> (error + Service) option" where
  "NewService env walletDir disable =
     (let serv = disabledService\<lparr>disableWalletAPI := disable\<rparr> in
      if disableWalletAPI serv then Some (Inr serv)
      else
        (let serv0 = logged (OpMkdirAll walletDir) serv in
         case MkdirAll env walletDir of
           Some err \<Rightarrow> Some (Inl (ErrWrapped ''failed to create wallet directory'' err))
         | None \<Rightarrow>
             (let serv1 = logged (OpLoadWallets walletDir) (serv0\<lparr>WalletDirectory := walletDir\<rparr>) in
              case LoadWallets env walletDir of
                Inl err \<Rightarrow> Some (Inl (ErrWrapped ''failed to load all wallets'' err))
              | Inr wl \<Rightarrow>
                  (case removeDup serv1 wl of
                     Inl err \<Rightarrow> Some (Inl err)
                   | Inr (survivors, serv2) \<Rightarrow>
                       (let serv3 = serv2\<lparr>wallets := map_of survivors\<rparr> in
                        if survivors = [] then
                          (case NewDefaultMnemomic env of
                             Inl err \<Rightarrow> Some (Inl err)
                           | Inr sd \<Rightarrow>
                               (case CreateWallet env serv3 [] \<lparr>Label = ''Your Wallet'', Seed = sd\<rparr> of
                                  None \<Rightarrow> None
                                | Some (Inl err, _) \<Rightarrow> Some (Inl err)
                                | Some (Inr w, serv4) \<Rightarrow>
                                    (case Save env (WalletDirectory serv4) w of
                                       Some err \<Rightarrow> Some (Inl (ErrWrapped ''failed to save wallets'' err))
                                     | None \<Rightarrow>
                                         Some (Inr (logged (OpSave (WalletDirectory serv4) (Filename w)) serv4)))))
                        else Some (Inr serv3))))))"


subsection \<open>The invariant of the duplicate-removal loop\<close>

text \<open>
  \<open>firstAddr w\<close> is \<open>w.Entries[0].Address.String()\<close>, read only for wallets that have an
  entry. After the loop of \<open>removeDup\<close> has visited the wallets \<open>p\<close>, with the
  first-address map \<open>idx\<close> and the ids to remove \<open>rm\<close>: only visited ids are marked; an
  id the map holds belongs to a visited, unmarked wallet that has entries, has that first
  address and has at least as many entries as every visited wallet with that address;
  an unmarked visited wallet has entries and is the one the map holds for its address;
  every visited wallet with entries has its address in the map; and of two visited
  wallets with the same first address, the earlier is marked when it has strictly
  fewer entries and the later is marked otherwise.
\<close>

definition firstAddr :: "Wallet \<Rightarrow> string" where
  "firstAddr w = Address (hd (Entries w))"

definition inv_rm :: "(string \<times> Wallet) list \<Rightarrow> string list \<Rightarrow> bool" where
  "inv_rm p rm \<longleftrightarrow> set rm \<subseteq> fst ` set p"

definition inv_idx :: "(string \<times> Wallet) list \<Rightarrow> (string \<rightharpoonup> string) \<Rightarrow> string list \<Rightarrow> bool" where
  "inv_idx p idx rm \<longleftrightarrow>
     (\<forall>a k. idx a = Some k \<longrightarrow>
         (\<exists>w. (k, w) \<in> set p \<and> Entries w \<noteq> [] \<and> firstAddr w = a \<and> k \<notin> set rm
            \<and> (\<forall>(k2, w2)\<in>set p. Entries w2 \<noteq> [] \<and> firstAddr w2 = a
                   \<longrightarrow> length (Entries w2) \<le> length (Entries w))))"

definition inv_live :: "(string \<times> Wallet) list \<Rightarrow> (string \<rightharpoonup> string) \<Rightarrow> string list \<Rightarrow> bool" where
  "inv_live p idx rm \<longleftrightarrow>
     (\<forall>(k, w)\<in>set p. k \<notin> set rm \<longrightarrow> Entries w \<noteq> [] \<and> idx (firstAddr w) = Some k)"

definition inv_dom :: "(string \<times> Wallet) list \<Rightarrow> (string \<rightharpoonup> string) \<Rightarrow> bool" where
  "inv_dom p idx \<longleftrightarrow> (\<forall>(k, w)\<in>set p. Entries w \<noteq> [] \<longrightarrow> idx (firstAddr w) \<noteq> None)"

definition inv_pairs :: "(string \<times> Wallet) list \<Rightarrow> string list \<Rightarrow> bool" where
  "inv_pairs p rm \<longleftrightarrow>
     (\<forall>i j. i < j \<and> j < length p
          \<and> Entries (snd (p ! i)) \<noteq> [] \<and> Entries (snd (p ! j)) \<noteq> []
          \<and> firstAddr (snd (p ! i)) = firstAddr (snd (p ! j))
          \<longrightarrow> (if length (Entries (snd (p ! i))) < length (Entries (snd (p ! j)))
               then fst (p ! i) \<in> set rm else fst (p ! j) \<in> set rm))"

definition dedup_inv :: "(string \<times> Wallet) list \<Rightarrow> (string \<rightharpoonup> string) \<Rightarrow> string list \<Rightarrow> bool" where
  "dedup_inv p idx rm \<longleftrightarrow>
     inv_rm p rm \<and> inv_idx p idx rm \<and> inv_live p idx rm \<and> inv_dom p idx \<and> inv_pairs p rm"

subsection \<open>Concrete collaborators and registries\<close>

text \<open>
  A small world to run the service in: derivation appends a mark to the checkpoint,
  encryption prefixes its input, and every file system call succeeds.
\<close>

definition derive0 :: "string \<Rightarrow> string \<times> Entry" where
  "derive0 s =
     (s @ ''+'',
      \<lparr>Address = ''A'' @ s, Public = ''P'' @ s, Secret = ''kkkkkkkkkkkkkkkkkkkkkkkkkkkkkkkk'',
       EncryptedSeckey = []\<rparr>)"

definition NewWallet0 :: "string \<Rightarrow> Options \<Rightarrow> error + Wallet" where
  "NewWallet0 nm opts =
     Inr \<lparr>Filename = nm, label = Label opts, version = ''0.2'', seed = PlainSeed (Seed opts),
          lastSeed = PlainSeed (Seed opts), Entries = []\<rparr>"

definition env0 :: Env where
  "env0 =
     \<lparr>Version = ''0.2'',
      encrypt_data = (\<lambda>d p. Inr (''enc:'' @ d)),
      Save = (\<lambda>dir w. None),
      LoadWallets = (\<lambda>dir. Inr []),
      NewWallet = NewWallet0,
      derive = derive0,
      gen_error = (\<lambda>w n. None),
      MkdirAll = (\<lambda>dir. None),
      Stat = (\<lambda>p. NotExist),
      os_Remove = (\<lambda>p. None),
      filepath_Join = (\<lambda>dir fn. dir @ ''/'' @ fn),
      NewWalletFilename = (\<lambda>k. ''wlt'' @ replicate k (CHR ''x'')),
      NewDefaultMnemomic = Inr ''mnemonic'',
      sign_transaction = (\<lambda>w t c d. Inr ''tx'')\<rparr>"

definition wallet0 :: Wallet where
  "wallet0 =
     \<lparr>Filename = ''w1'', label = ''first'', version = ''0.1'', seed = PlainSeed ''s'',
      lastSeed = PlainSeed ''s+'', Entries = [snd (derive0 ''s'')]\<rparr>"

definition serv0 :: Service where
  "serv0 =
     \<lparr>wallets = [''w1'' \<mapsto> wallet0], firstAddrIDMap = [''As'' \<mapsto> ''w1''],
      disableWalletAPI = False, WalletDirectory = ''dir'', dirlog = []\<rparr>"

definition opts0 :: "string \<Rightarrow> Options" where
  "opts0 sd = \<lparr>Label = ''mine'', Seed = sd\<rparr>"


definition env_save_fails :: Env where
  \<comment> \<open>as \<open>env0\<close>, with a persistence gateway that fails\<close>
  "env_save_fails = env0\<lparr>Save := (\<lambda>dir w. Some (ErrExternal ''disk full''))\<rparr>"

definition wallet_t :: Wallet where
  \<comment> \<open>what \<open>NewWallet0\<close> and one generated address make of the name w2 and the seed t\<close>
  "wallet_t =
     \<lparr>Filename = ''w2'', label = ''mine'', version = ''0.2'', seed = PlainSeed ''t'',
      lastSeed = PlainSeed ''t+'', Entries = [snd (derive0 ''t'')]\<rparr>"


definition entry_a :: Entry where
  "entry_a =
     \<lparr>Address = ''As'', Public = ''Ps'', Secret = ''aaaaaaaaaaaaaaaaaaaaaaaaaaaaaaaa'',
      EncryptedSeckey = []\<rparr>"

definition entry_b :: Entry where
  "entry_b =
     \<lparr>Address = ''As+'', Public = ''Ps+'', Secret = ''bbbbbbbbbbbbbbbbbbbbbbbbbbbbbbbb'',
      EncryptedSeckey = []\<rparr>"

definition wallet_two :: Wallet where
  \<comment> \<open>a plaintext wallet of the legacy version with two entries\<close>
  "wallet_two =
     \<lparr>Filename = ''w1'', label = ''first'', version = ''0.1'', seed = PlainSeed ''s'',
      lastSeed = PlainSeed ''s++'', Entries = [entry_a, entry_b]\<rparr>"

definition serv_two :: Service where
  "serv_two =
     \<lparr>wallets = [''w1'' \<mapsto> wallet_two], firstAddrIDMap = [''As'' \<mapsto> ''w1''],
      disableWalletAPI = False, WalletDirectory = ''dir'', dirlog = []\<rparr>"

definition env_encrypt_fails :: Env where
  \<comment> \<open>as \<open>env0\<close>, with a primitive that fails on the second entry's secret key\<close>
  "env_encrypt_fails =
     env0\<lparr>encrypt_data :=
            (\<lambda>d p. if d = ''bbbbbbbbbbbbbbbbbbbbbbbbbbbbbbbb'' then Inl (ErrExternal ''encrypt failed'')
                   else Inr (''enc:'' @ d))\<rparr>"

definition env_seed_fails :: Env where
  \<comment> \<open>as \<open>env0\<close>, with a primitive that always fails\<close>
  "env_seed_fails = env0\<lparr>encrypt_data := (\<lambda>d p. Inl (ErrExternal ''encrypt failed''))\<rparr>"

definition bals_third :: BalanceGetter where
  \<comment> \<open>a balance lookup: only the third probed address holds coins\<close>
  "bals_third addrs = Inr [0, 0, 7, 0, 0]"

definition bals_none :: BalanceGetter where
  "bals_none addrs = Inr [0, 0, 0, 0, 0]"

definition entry_at :: "string \<Rightarrow> Entry" where
  "entry_at a =
     \<lparr>Address = a, Public = ''P'' @ a, Secret = ''kkkkkkkkkkkkkkkkkkkkkkkkkkkkkkkk'',
      EncryptedSeckey = []\<rparr>"

definition wallet_with :: "string \<Rightarrow> Entry list \<Rightarrow> Wallet" where
  "wallet_with nm es =
     \<lparr>Filename = nm, label = nm, version = ''0.2'', seed = PlainSeed ''x'',
      lastSeed = PlainSeed ''x'', Entries = es\<rparr>"

text \<open>
  Five loaded wallets in the order the loop visits them: a, b and d share the first
  address Ax with 3, 5 and 5 entries, c has no entry, e stands alone.
\<close>

definition loaded5 :: "(string \<times> Wallet) list" where
  "loaded5 =
     [(''a'', wallet_with ''a'' [entry_at ''Ax'', entry_at ''Ax1'', entry_at ''Ax2'']),
      (''b'', wallet_with ''b'' [entry_at ''Ax'', entry_at ''Ax1'', entry_at ''Ax2'', entry_at ''Ax3'',
                                 entry_at ''Ax4'']),
      (''c'', wallet_with ''c'' []),
      (''d'', wallet_with ''d'' [entry_at ''Ax'', entry_at ''Ax1'', entry_at ''Ax2'', entry_at ''Ax3'',
                                 entry_at ''Ax4'']),
      (''e'', wallet_with ''e'' [entry_at ''Az''])]"

definition serv_fresh :: Service where
  "serv_fresh =
     \<lparr>wallets = Map.empty, firstAddrIDMap = Map.empty, disableWalletAPI = False,
      WalletDirectory = ''dir'', dirlog = []\<rparr>"

text \<open>Three loaded wallets sharing the first address Ax, with 3, 5 and 7 entries.\<close>

definition loaded3 :: "(string \<times> Wallet) list" where
  "loaded3 =
     [(''a'', wallet_with ''a'' [entry_at ''Ax'', entry_at ''Ax1'', entry_at ''Ax2'']),
      (''b'', wallet_with ''b'' [entry_at ''Ax'', entry_at ''Ax1'', entry_at ''Ax2'', entry_at ''Ax3'',
                                 entry_at ''Ax4'']),
      (''d'', wallet_with ''d'' [entry_at ''Ax'', entry_at ''Ax1'', entry_at ''Ax2'', entry_at ''Ax3'',
                                 entry_at ''Ax4'', entry_at ''Ax5'', entry_at ''Ax6''])]"

section \<open>Properties of the service\<close>

subsection \<open>Creating a wallet\<close>

lemma CreateWallet_loadWallet:
  assumes "(if wltName = [] then generateUniqueWalletFilename env serv 0 else Some wltName) = Some nm"
      and "\<not> disableWalletAPI serv"
  shows "CreateWallet env serv wltName options = Some (loadWallet env serv nm options 0 None)"
  using assms by (simp add: CreateWallet_def)

text \<open>The search for a free name returns as soon as the generator offers one.\<close>

lemma generateUnique_found:
  "wallets serv (NewWalletFilename env (k + j)) = None \<Longrightarrow>
   \<exists>nm. generateUniqueWalletFilename env serv k = Some nm \<and> wallets serv nm = None"
proof (induction j arbitrary: k)
  case 0
  then show ?case by (subst generateUniqueWalletFilename.simps) simp
next
  case (Suc j)
  from Suc.prems have "wallets serv (NewWalletFilename env (Suc k + j)) = None" by simp
  from Suc.IH [OF this] show ?case
    by (subst generateUniqueWalletFilename.simps) auto
qed

text \<open>
  Claim C3. When the first address derived for the new wallet is already a key of the
  first-address map, \<open>CreateWallet\<close> (on an enabled service, under the given name or
  the unique name found for an empty one) and \<open>loadWallet\<close> fail with the duplicate
  error that carries the id the map holds for that address; the new wallet is dropped
  and the service is returned as it was: same collection, same map, no directory call.
\<close>

theorem create_wallet_duplicate:
  assumes nm: "(if wltName = [] then generateUniqueWalletFilename env serv 0 else Some wltName) = Some nm"
      and en: "\<not> disableWalletAPI serv"
      and nw: "NewWallet env nm options = Inr w0"
      and fa: "Entries (fst (GenerateAddresses env w0 1)) = e0 # es"
      and dup: "firstAddrIDMap serv (Address e0) = Some wid"
  shows "CreateWallet env serv wltName options = Some (Inl (ErrDuplicateWallet wid), serv)
       \<and> loadWallet env serv nm options scanN bg = (Inl (ErrDuplicateWallet wid), serv)"
proof -
  have lw: "loadWallet env serv nm options n g = (Inl (ErrDuplicateWallet wid), serv)" for n g
    using nw fa dup by (simp add: loadWallet_def Let_def)
  have "CreateWallet env serv wltName options = Some (loadWallet env serv nm options 0 None)"
    using nm en by (simp add: CreateWallet_def)
  with lw show ?thesis by simp
qed

theorem create_wallet_duplicate_witness:
  "firstAddrIDMap serv0 ''As'' = Some ''w1''
   \<and> CreateWallet env0 serv0 ''w2'' (opts0 ''s'') = Some (Inl (ErrDuplicateWallet ''w1''), serv0)
   \<and> loadWallet env0 serv0 ''w2'' (opts0 ''s'') 0 None = (Inl (ErrDuplicateWallet ''w1''), serv0)
   \<and> CreateWallet env0 serv0 [] (opts0 ''s'') = Some (Inl (ErrDuplicateWallet ''w1''), serv0)"
proof -
  let ?v0 = "\<lparr>Filename = ''wlt'', label = ''mine'', version = ''0.2'', seed = PlainSeed ''s'',
          lastSeed = PlainSeed ''s'', Entries = []\<rparr>"
  have nm': "(if [] = [] then generateUniqueWalletFilename env0 serv0 0 else Some []) = Some ''wlt''"
    by (subst generateUniqueWalletFilename.simps) (simp add: env0_def serv0_def)
  have nw': "NewWallet env0 ''wlt'' (opts0 ''s'') = Inr ?v0"
    by (simp add: env0_def NewWallet0_def opts0_def)
  have fa': "Entries (fst (GenerateAddresses env0 ?v0 1)) = snd (derive0 ''s'') # []"
    by (simp add: GenerateAddresses_def env0_def derive0_def)
  let ?w0 = "\<lparr>Filename = ''w2'', label = ''mine'', version = ''0.2'', seed = PlainSeed ''s'',
          lastSeed = PlainSeed ''s'', Entries = []\<rparr>"
  have nm: "(if ''w2'' = [] then generateUniqueWalletFilename env0 serv0 0 else Some ''w2'') = Some ''w2''"
    by simp
  have en: "\<not> disableWalletAPI serv0" by (simp add: serv0_def)
  have nw: "NewWallet env0 ''w2'' (opts0 ''s'') = Inr ?w0"
    by (simp add: env0_def NewWallet0_def opts0_def)
  have fa: "Entries (fst (GenerateAddresses env0 ?w0 1)) = snd (derive0 ''s'') # []"
    by (simp add: GenerateAddresses_def env0_def derive0_def)
  have dup: "firstAddrIDMap serv0 (Address (snd (derive0 ''s''))) = Some ''w1''"
    by (simp add: serv0_def derive0_def)
  from create_wallet_duplicate [OF nm en nw fa dup, of 0 None]
       create_wallet_duplicate [OF nm' en nw' fa' dup, of 0 None] dup
  show ?thesis by (simp add: derive0_def)
qed

text \<open>
  Claim C5. When \<open>loadWallet\<close> has passed the duplicate check and inserted the new wallet
  (\<open>Wallets.Add\<close> succeeded) and saving it then fails, the error of \<open>Save\<close> is returned,
  the inserted wallet is removed again, so that the collection is the one before the
  call, and the first-address map is not written; only the attempted save is on the
  directory log. \<open>CreateWallet\<close> is the case \<open>scanN = 0\<close>, \<open>bg = nil\<close>.
\<close>

theorem create_wallet_save_failure:
  assumes nm: "(if wltName = [] then generateUniqueWalletFilename env serv 0 else Some wltName) = Some nm"
      and en: "\<not> disableWalletAPI serv"
      and nw: "NewWallet env nm options = Inr w0"
      and fa: "Entries (fst (GenerateAddresses env w0 1)) = e0 # es"
      and nodup: "firstAddrIDMap serv (Address e0) = None"
      and scan: "scanFirst env (fst (GenerateAddresses env w0 1)) scanN bg = Inr w2"
      and add: "Wallets_Add (wallets serv) w2 = Inr wlts"
      and sv: "Save env (WalletDirectory serv) w2 = Some err"
  shows "loadWallet env serv nm options scanN bg
           = (Inl err, logged (OpSave (WalletDirectory serv) (Filename w2)) serv)
       \<and> wlts (Filename w2) = Some w2
       \<and> wallets (snd (loadWallet env serv nm options scanN bg)) = wallets serv
       \<and> wallets (snd (loadWallet env serv nm options scanN bg)) (Filename w2) = None
       \<and> firstAddrIDMap (snd (loadWallet env serv nm options scanN bg)) = firstAddrIDMap serv
       \<and> (scanN = 0 \<and> bg = None \<longrightarrow>
            CreateWallet env serv wltName options
              = Some (Inl err, logged (OpSave (WalletDirectory serv) (Filename w2)) serv))"
proof -
  from add have free: "wallets serv (Filename w2) = None"
    and wl: "wlts = (wallets serv)(Filename w2 \<mapsto> w2)"
    by (auto simp: Wallets_Add_def split: if_splits)
  have undo: "Wallets_Remove wlts (GetID w2) = wallets serv"
    using free by (auto simp: wl Wallets_Remove_def GetID_def fun_eq_iff)
  have lw: "loadWallet env serv nm options scanN bg
           = (Inl err, logged (OpSave (WalletDirectory serv) (Filename w2)) serv)"
    using nw fa nodup scan add sv undo
    by (simp add: loadWallet_def Let_def logged_def)
  moreover have "CreateWallet env serv wltName options = Some (loadWallet env serv nm options 0 None)"
    using nm en by (simp add: CreateWallet_def)
  ultimately show ?thesis using free wl by (auto simp: logged_def)
qed

theorem create_wallet_save_failure_witness:
  "firstAddrIDMap serv0 (Address (snd (derive0 ''t''))) = None
   \<and> Wallets_Add (wallets serv0) wallet_t = Inr ((wallets serv0)(''w2'' \<mapsto> wallet_t))
   \<and> CreateWallet env_save_fails serv0 ''w2'' (opts0 ''t'')
        = Some (Inl (ErrExternal ''disk full''), logged (OpSave ''dir'' ''w2'') serv0)
   \<and> wallets (snd (loadWallet env_save_fails serv0 ''w2'' (opts0 ''t'') 0 None)) = wallets serv0
   \<and> firstAddrIDMap (snd (loadWallet env_save_fails serv0 ''w2'' (opts0 ''t'') 0 None))
        = firstAddrIDMap serv0"
proof -
  let ?w0 = "\<lparr>Filename = ''w2'', label = ''mine'', version = ''0.2'', seed = PlainSeed ''t'',
          lastSeed = PlainSeed ''t'', Entries = []\<rparr>"
  have nm: "(if ''w2'' = [] then generateUniqueWalletFilename env_save_fails serv0 0 else Some ''w2'') = Some ''w2''"
    by simp
  have en: "\<not> disableWalletAPI serv0" by (simp add: serv0_def)
  have nw: "NewWallet env_save_fails ''w2'' (opts0 ''t'') = Inr ?w0"
    by (simp add: env_save_fails_def env0_def NewWallet0_def opts0_def)
  have g: "fst (GenerateAddresses env_save_fails ?w0 1) = wallet_t"
    by (simp add: GenerateAddresses_def env_save_fails_def env0_def derive0_def wallet_t_def)
  have fa: "Entries (fst (GenerateAddresses env_save_fails ?w0 1)) = snd (derive0 ''t'') # []"
    by (simp add: g wallet_t_def)
  have nodup: "firstAddrIDMap serv0 (Address (snd (derive0 ''t''))) = None"
    by (simp add: serv0_def derive0_def)
  have scan: "scanFirst env_save_fails (fst (GenerateAddresses env_save_fails ?w0 1)) 0 None = Inr wallet_t"
    by (simp add: g scanFirst_def)
  have add: "Wallets_Add (wallets serv0) wallet_t = Inr ((wallets serv0)(''w2'' \<mapsto> wallet_t))"
    by (simp add: Wallets_Add_def serv0_def wallet_t_def)
  have sv: "Save env_save_fails (WalletDirectory serv0) wallet_t = Some (ErrExternal ''disk full'')"
    by (simp add: env_save_fails_def)
  have dir: "WalletDirectory serv0 = ''dir''" and fn: "Filename wallet_t = ''w2''"
    by (simp_all add: serv0_def wallet_t_def)
  from create_wallet_save_failure [OF nm en nw fa nodup scan add sv] nodup add
  show ?thesis by (simp add: dir fn logged_def)
qed

subsection \<open>Removing a wallet\<close>

text \<open>
  Claim C9. \<open>Remove\<close> has no error result. For any id, present or not, the collection
  afterwards is the old one without that id, so \<open>GetWallet\<close> of it fails with the
  not-found error; the first-address map (and the flag, the directory and the directory
  log) are as before, so the removed wallet's first address stays in the map.
\<close>

theorem remove_drops_wallet_keeps_index:
  "wallets (Remove serv wltID) = (wallets serv)(wltID := None)
   \<and> wallets (Remove serv wltID) wltID = None
   \<and> GetWallet (Remove serv wltID) wltID = Inl ErrWalletNotExist
   \<and> firstAddrIDMap (Remove serv wltID) = firstAddrIDMap serv
   \<and> disableWalletAPI (Remove serv wltID) = disableWalletAPI serv
   \<and> WalletDirectory (Remove serv wltID) = WalletDirectory serv
   \<and> dirlog (Remove serv wltID) = dirlog serv"
  by (simp add: Remove_def Wallets_Remove_def GetWallet_def getWallet_def)

subsection \<open>The two not-found errors\<close>

text \<open>
  Claim C10. For an id that is not in the collection, \<open>GetWallet\<close>, \<open>getWallet\<close> and
  \<open>ScanAheadWalletAddresses\<close> (which looks up through \<open>getWallet\<close>) return the error
  variable without an id, while \<open>NewAddresses\<close>, \<open>GetAddresses\<close>, \<open>Encrypt\<close> and
  \<open>CreateAndSignTransaction\<close> return the error struct holding the requested id; the two
  values differ, so matching on the second form misses the first.
\<close>

theorem not_found_error_not_uniform:
  assumes "wallets serv wltID = None"
  shows "GetWallet serv wltID = Inl ErrWalletNotExist
       \<and> getWallet serv wltID = Inl ErrWalletNotExist
       \<and> ScanAheadWalletAddresses env serv wltID scanN bg = (Inl ErrWalletNotExist, serv)
       \<and> NewAddresses env serv wltID num = (Inl (ErrWalletNotExistID wltID), serv)
       \<and> GetAddresses serv wltID = Inl (ErrWalletNotExistID wltID)
       \<and> Encrypt env serv wltID password = (Inl (ErrWalletNotExistID wltID), serv)
       \<and> CreateAndSignTransaction env serv wltID headTime coins dest = Inl (ErrWalletNotExistID wltID)
       \<and> ErrWalletNotExist \<noteq> ErrWalletNotExistID wltID"
  using assms
  by (simp add: GetWallet_def getWallet_def ScanAheadWalletAddresses_def NewAddresses_def
      GetAddresses_def Encrypt_def CreateAndSignTransaction_def)

theorem not_found_error_not_uniform_witness:
  "wallets serv0 ''nope'' = None
   \<and> GetWallet serv0 ''nope'' = Inl ErrWalletNotExist
   \<and> NewAddresses env0 serv0 ''nope'' 3 = (Inl (ErrWalletNotExistID ''nope''), serv0)
   \<and> GetAddresses serv0 ''nope'' = Inl (ErrWalletNotExistID ''nope'')
   \<and> Encrypt env0 serv0 ''nope'' ''pw'' = (Inl (ErrWalletNotExistID ''nope''), serv0)"
proof -
  have absent: "wallets serv0 ''nope'' = None" by (simp add: serv0_def)
  from not_found_error_not_uniform [OF absent, of env0 0 "\<lambda>as. Inr []" 3 "''pw''" 0 0 "''dest''"] absent
  show ?thesis by simp
qed


subsection \<open>Generating addresses\<close>

lemma derive_entries_length: "derive_entries d s n = (s', es) \<Longrightarrow> length es = n"
  by (induction n arbitrary: s s' es) (auto split: prod.splits)

lemma length_derive_entries: "length (snd (derive_entries d s n)) = n"
  by (cases "derive_entries d s n") (simp add: derive_entries_length)

lemma derive_entries_numeral:
  "derive_entries d s (numeral k) =
     (case d s of (s', e) \<Rightarrow>
        (case derive_entries d s' (pred_numeral k) of (s'', es) \<Rightarrow> (s'', e # es)))"
  by (simp add: numeral_eq_Suc)

text \<open>
  Claim C7. For a wallet in the collection, when generation and the save succeed,
  \<open>NewAddresses\<close> returns: its result is the list of the addresses of the newly generated
  entries, as many as were asked for; the stored wallet has its old entries, in their
  order, followed by the new ones; \<open>GetAddresses\<close> afterwards gives the old addresses
  followed by the returned ones; no other wallet changes.
\<close>

theorem new_addresses_appends:
  assumes present: "wallets serv wltID = Some w"
      and gen: "gen_error env w num = None"
      and sv: "Save env (WalletDirectory serv) (fst (GenerateAddresses env w num)) = None"
  shows "\<exists>addrs serv' new w'.
           NewAddresses env serv wltID num = (Inr addrs, serv')
         \<and> length addrs = unat num
         \<and> addrs = map Address new
         \<and> wallets serv' wltID = Some w'
         \<and> Entries w' = Entries w @ new
         \<and> GetAddresses serv wltID = Inr (GetAddresses_of w)
         \<and> GetAddresses serv' wltID = Inr (GetAddresses_of w @ addrs)
         \<and> (\<forall>k. k \<noteq> wltID \<longrightarrow> wallets serv' k = wallets serv k)"
proof -
  obtain s' es where d: "derive_entries (derive env) (seed_text (lastSeed w)) (unat num) = (s', es)"
    by (cases "derive_entries (derive env) (seed_text (lastSeed w)) (unat num)")
  have len: "length es = unat num" using derive_entries_length [OF d] .
  let ?w' = "w\<lparr>Entries := Entries w @ es, lastSeed := PlainSeed s'\<rparr>"
  let ?serv' = "logged (OpSave (WalletDirectory serv) (Filename w)) (store serv wltID ?w')"
  have g: "GenerateAddresses env w num = (?w', Inr (map Address es))"
    using gen d by (simp add: GenerateAddresses_def)
  have run: "NewAddresses env serv wltID num = (Inr (map Address es), ?serv')"
    using present g sv by (simp add: NewAddresses_def Let_def)
  have "length (map Address es) = unat num" using len by simp
  moreover have "wallets ?serv' wltID = Some ?w'" by (simp add: logged_def store_def)
  moreover have "Entries ?w' = Entries w @ es" by simp
  moreover have "GetAddresses serv wltID = Inr (GetAddresses_of w)"
    using present by (simp add: GetAddresses_def)
  moreover have "GetAddresses ?serv' wltID = Inr (GetAddresses_of w @ map Address es)"
    by (simp add: GetAddresses_def GetAddresses_of_def logged_def store_def)
  moreover have "\<forall>k. k \<noteq> wltID \<longrightarrow> wallets ?serv' k = wallets serv k"
    by (simp add: logged_def store_def)
  ultimately show ?thesis using run by blast
qed

theorem new_addresses_appends_witness:
  "wallets serv0 ''w1'' = Some wallet0
   \<and> fst (NewAddresses env0 serv0 ''w1'' 3) = Inr [''As+'', ''As++'', ''As+++'']
   \<and> GetAddresses serv0 ''w1'' = Inr [''As'']
   \<and> (\<exists>addrs serv'. NewAddresses env0 serv0 ''w1'' 3 = (Inr addrs, serv')
         \<and> length addrs = 3
         \<and> GetAddresses serv' ''w1'' = Inr ([''As''] @ addrs))"
proof -
  have present: "wallets serv0 ''w1'' = Some wallet0" by (simp add: serv0_def)
  have gen: "gen_error env0 wallet0 3 = None" by (simp add: env0_def)
  have sv: "Save env0 (WalletDirectory serv0) (fst (GenerateAddresses env0 wallet0 3)) = None"
    by (simp add: env0_def)
  have res: "fst (NewAddresses env0 serv0 ''w1'' 3) = Inr [''As+'', ''As++'', ''As+++'']"
    by (simp add: NewAddresses_def GenerateAddresses_def serv0_def wallet0_def env0_def derive0_def
        Let_def derive_entries_numeral)
  have old: "GetAddresses_of wallet0 = [''As'']"
    by (simp add: GetAddresses_of_def wallet0_def derive0_def)
  from new_addresses_appends [OF present gen sv] present res old
  show ?thesis by auto
qed

subsection \<open>Scanning ahead\<close>

text \<open>What \<open>keepNum\<close> computes.\<close>

lemma keepNum_none: "\<forall>b\<in>set bals. \<not> 0 < b \<Longrightarrow> keepNum bals = 0"
  by (induction bals) auto

lemma keepNum_le: "keepNum bals \<le> length bals"
  by (induction bals) auto

lemma keepNum_positive:
  "0 < keepNum bals \<Longrightarrow> 0 < bals ! (keepNum bals - 1) \<and> (\<forall>i. keepNum bals \<le> i \<and> i < length bals \<longrightarrow> bals ! i = 0)"
proof (induction bals)
  case Nil
  then show ?case by simp
next
  case (Cons b bs)
  show ?case
  proof (cases "keepNum bs = 0")
    case True
    then have z: "\<forall>i<length bs. bs ! i = 0" 
    proof (induction bs)
      case Nil then show ?case by simp
    next
      case (Cons c cs)
      then show ?case by (auto split: if_splits simp: nth_Cons' word_gt_0)
    qed
    with Cons.prems True show ?thesis by (auto split: if_splits simp: nth_Cons')
  next
    case False
    with Cons have pos: "0 < bs ! (keepNum bs - 1)"
      and zero: "\<forall>i. keepNum bs \<le> i \<and> i < length bs \<longrightarrow> bs ! i = 0" by auto
    have k: "keepNum (b # bs) = Suc (keepNum bs)" using False by simp
    have "(b # bs) ! (keepNum (b # bs) - 1) = bs ! (keepNum bs - 1)"
      using False by (simp add: k nth_Cons')
    moreover have "(b # bs) ! i = 0" if "keepNum (b # bs) \<le> i" "i < length (b # bs)" for i
    proof -
      from that k obtain j where j: "i = Suc j" "keepNum bs \<le> j" "j < length bs"
        by (cases i) auto
      with zero show ?thesis by simp
    qed
    ultimately show ?thesis using pos by auto
  qed
qed

lemma ScanAddresses_extends:
  assumes "ScanAddresses env w scanN bg = Inr w'"
  shows "\<exists>kept. Entries w' = Entries w @ kept \<and> length kept \<le> unat scanN
          \<and> Filename w' = Filename w
          \<and> ((\<forall>bals. bg (map Address (snd (derive_entries (derive env) (seed_text (lastSeed w)) (unat scanN)))) = Inr bals
                 \<longrightarrow> (\<forall>b\<in>set bals. \<not> 0 < b)) \<longrightarrow> kept = [])"
proof -
  obtain s cands where c: "derive_entries (derive env) (seed_text (lastSeed w)) (unat scanN) = (s, cands)"
    by (cases "derive_entries (derive env) (seed_text (lastSeed w)) (unat scanN)")
  have lc: "length cands = unat scanN" using derive_entries_length [OF c] .
  from assms c obtain bals where b: "bg (map Address cands) = Inr bals"
    by (auto simp: ScanAddresses_def split: option.splits sum.splits)
  obtain s' kept where k: "derive_entries (derive env) (seed_text (lastSeed w)) (min (keepNum bals) (length cands)) = (s', kept)"
    by (cases "derive_entries (derive env) (seed_text (lastSeed w)) (min (keepNum bals) (length cands))")
  have lk: "length kept = min (keepNum bals) (length cands)" using derive_entries_length [OF k] .
  from assms c b k have w': "w' = w\<lparr>Entries := Entries w @ kept, lastSeed := PlainSeed s'\<rparr>"
    by (auto simp: ScanAddresses_def split: option.splits sum.splits)
  have "kept = []" if "\<forall>b\<in>set bals. \<not> 0 < b"
    using lk keepNum_none [OF that] by simp
  then show ?thesis using w' lk lc b c by auto
qed

text \<open>
  Claim C8. For a wallet in the collection, whatever the probe count and whatever the
  balance lookup answers (an error included) and whether or not the save succeeds, the
  wallet stored under the id after \<open>ScanAheadWalletAddresses\<close> has the old entries as a
  prefix of its entries, so at least as many; when no probed candidate has a strictly
  positive balance the entries are the old ones.
\<close>

theorem scan_ahead_never_removes:
  assumes present: "wallets serv wltName = Some w"
  shows "\<exists>w'. wallets (snd (ScanAheadWalletAddresses env serv wltName scanN bg)) wltName = Some w'
          \<and> length (Entries w) \<le> length (Entries w')
          \<and> take (length (Entries w)) (Entries w') = Entries w
          \<and> ((\<forall>bals. bg (map Address (snd (derive_entries (derive env) (seed_text (lastSeed w)) (unat scanN)))) = Inr bals
                 \<longrightarrow> (\<forall>b\<in>set bals. \<not> 0 < b))
               \<longrightarrow> Entries w' = Entries w)"
proof (cases "ScanAddresses env w scanN bg")
  case (Inl err)
  with present show ?thesis
    by (simp add: ScanAheadWalletAddresses_def getWallet_def clone_def)
next
  case (Inr w1)
  from ScanAddresses_extends [OF Inr] obtain kept where
    k: "Entries w1 = Entries w @ kept" "Filename w1 = Filename w"
       "(\<forall>bals. bg (map Address (snd (derive_entries (derive env) (seed_text (lastSeed w)) (unat scanN)))) = Inr bals
                 \<longrightarrow> (\<forall>b\<in>set bals. \<not> 0 < b)) \<longrightarrow> kept = []"
    by blast
  show ?thesis
  proof (cases "Save env (WalletDirectory serv) w1")
    case (Some err)
    with present Inr show ?thesis
      by (simp add: ScanAheadWalletAddresses_def getWallet_def clone_def logged_def Let_def)
  next
    case None
    show ?thesis
    proof (cases "Filename w = wltName")
      case True
      with present Inr None k show ?thesis
        by (simp add: ScanAheadWalletAddresses_def getWallet_def clone_def logged_def Let_def
            Wallets_set_def)
    next
      case False
      with present Inr None k show ?thesis
        by (simp add: ScanAheadWalletAddresses_def getWallet_def clone_def logged_def Let_def
            Wallets_set_def)
    qed
  qed
qed

theorem scan_ahead_never_removes_witness:
  "wallets serv0 ''w1'' = Some wallet0
   \<and> map_sum id GetAddresses_of (fst (ScanAheadWalletAddresses env0 serv0 ''w1'' 5 bals_third))
        = Inr [''As'', ''As+'', ''As++'', ''As+++'']
   \<and> (\<exists>w'. wallets (snd (ScanAheadWalletAddresses env0 serv0 ''w1'' 5 bals_third)) ''w1'' = Some w'
         \<and> length (Entries wallet0) \<le> length (Entries w'))
   \<and> (\<exists>w'. wallets (snd (ScanAheadWalletAddresses env0 serv0 ''w1'' 5 bals_none)) ''w1'' = Some w'
         \<and> Entries w' = Entries wallet0)"
proof -
  have present: "wallets serv0 ''w1'' = Some wallet0" by (simp add: serv0_def)
  have run: "map_sum id GetAddresses_of (fst (ScanAheadWalletAddresses env0 serv0 ''w1'' 5 bals_third))
        = Inr [''As'', ''As+'', ''As++'', ''As+++'']"
    by (simp add: ScanAheadWalletAddresses_def ScanAddresses_def getWallet_def clone_def Copy_def
        serv0_def wallet0_def env0_def derive0_def bals_third_def Let_def derive_entries_numeral
        GetAddresses_of_def)
  have none: "\<forall>bals. bals_none (map Address (snd (derive_entries (derive env0) (seed_text (lastSeed wallet0)) (unat (5 :: 64 word))))) = Inr bals
                 \<longrightarrow> (\<forall>b\<in>set bals. \<not> 0 < b)"
    by (simp add: bals_none_def)
  from scan_ahead_never_removes [OF present, of env0 5 bals_third]
       scan_ahead_never_removes [OF present, of env0 5 bals_none] none present run
  show ?thesis by blast
qed


subsection \<open>Encrypting a wallet\<close>

text \<open>
  Claim C1 (the code differs). \<open>Encrypt\<close> writes the version, the seed, the last seed and
  each entry into the stored wallet as it goes and returns at the first failure of the
  primitive without undoing them. With a primitive that fails on the second entry's key,
  the wallet read back after the failed call has the new version, the encrypted seed
  and last seed, and a first entry with its key encrypted and zeroed, beside a second
  entry still in plaintext; with a primitive that fails on the seed, the version has
  changed.
\<close>

theorem encrypt_failure_leaves_partial_state:
  "fst (Encrypt env_encrypt_fails serv_two ''w1'' ''pw'') = Inl (ErrExternal ''encrypt failed'')
   \<and> GetWallet serv_two ''w1'' = Inr wallet_two
   \<and> GetWallet (snd (Encrypt env_encrypt_fails serv_two ''w1'' ''pw'')) ''w1''
        = Inr (wallet_two\<lparr>version := ''0.2'', seed := EncryptedSeed ''enc:s'',
                 lastSeed := EncryptedSeed ''enc:s++'',
                 Entries := [entry_a\<lparr>EncryptedSeckey := ''enc:'' @ ''aaaaaaaaaaaaaaaaaaaaaaaaaaaaaaaa'',
                                      Secret := SecKey_zero\<rparr>, entry_b]\<rparr>)
   \<and> GetWallet (snd (Encrypt env_encrypt_fails serv_two ''w1'' ''pw'')) ''w1'' \<noteq> GetWallet serv_two ''w1''
   \<and> fst (Encrypt env_seed_fails serv_two ''w1'' ''pw'') = Inl (ErrExternal ''encrypt failed'')
   \<and> GetWallet (snd (Encrypt env_seed_fails serv_two ''w1'' ''pw'')) ''w1''
        = Inr (wallet_two\<lparr>version := ''0.2''\<rparr>)"
  by (simp add: Encrypt_def GetWallet_def getWallet_def clone_def store_def Let_def entry_a_def entry_b_def wallet_two_def serv_two_def
      env_encrypt_fails_def env_seed_fails_def env0_def)







subsection \<open>The disabled service\<close>

text \<open>
  Claim C6 (the code differs). \<open>NewService\<close> with the flag set returns the service with an
  empty collection and touches no directory. On it \<open>CreateWallet\<close> and \<open>ReloadWallets\<close>
  fail with \<open>ErrWalletApiDisabled\<close>, but \<open>NewAddresses\<close>, \<open>Encrypt\<close>,
  \<open>ScanAheadWalletAddresses\<close> and \<open>UpdateWalletLabel\<close> do not test the flag: they fail
  with a not-found error. All of them leave the service, its directory log included,
  as it was.
\<close>

theorem disabled_service_errors:
  "NewService env walletDir True = Some (Inr disabledService)
   \<and> CreateWallet env disabledService wltName options = Some (Inl ErrWalletApiDisabled, disabledService)
   \<and> ReloadWallets env disabledService = (Some ErrWalletApiDisabled, disabledService)
   \<and> NewAddresses env disabledService wltID num = (Inl (ErrWalletNotExistID wltID), disabledService)
   \<and> Encrypt env disabledService wltID password = (Inl (ErrWalletNotExistID wltID), disabledService)
   \<and> ScanAheadWalletAddresses env disabledService wltID scanN bg = (Inl ErrWalletNotExist, disabledService)
   \<and> UpdateWalletLabel env disabledService wltID lbl = (Some (ErrWalletNotExistID wltID), disabledService)
   \<and> Remove disabledService wltID = disabledService
   \<and> ErrWalletNotExistID wltID \<noteq> ErrWalletApiDisabled
   \<and> ErrWalletNotExist \<noteq> ErrWalletApiDisabled"
  by (simp add: NewService_def CreateWallet_def ReloadWallets_def NewAddresses_def Encrypt_def
      ScanAheadWalletAddresses_def getWallet_def UpdateWalletLabel_def Remove_def Wallets_Remove_def
      disabledService_def)


subsection \<open>Removing duplicates\<close>

lemma dedup_inv_empty: "dedup_inv [] Map.empty []"
  by (simp add: dedup_inv_def inv_rm_def inv_idx_def inv_live_def inv_dom_def inv_pairs_def)

lemma inv_pairs_snoc:
  assumes old: "inv_pairs p rm" and sub: "set rm \<subseteq> set rm'"
      and new: "\<And>k0 w0. (k0, w0) \<in> set p \<Longrightarrow> Entries w0 \<noteq> [] \<Longrightarrow> Entries w \<noteq> [] \<Longrightarrow>
                  firstAddr w0 = firstAddr w \<Longrightarrow>
                  (if length (Entries w0) < length (Entries w) then k0 \<in> set rm' else k \<in> set rm')"
  shows "inv_pairs (p @ [(k, w)]) rm'"
  unfolding inv_pairs_def
proof (intro allI impI, elim conjE)
  fix i j
  assume ij: "i < j" "j < length (p @ [(k, w)])"
    and ne: "Entries (snd ((p @ [(k, w)]) ! i)) \<noteq> []" "Entries (snd ((p @ [(k, w)]) ! j)) \<noteq> []"
    and fa: "firstAddr (snd ((p @ [(k, w)]) ! i)) = firstAddr (snd ((p @ [(k, w)]) ! j))"
  let ?goal = "if length (Entries (snd ((p @ [(k, w)]) ! i))) < length (Entries (snd ((p @ [(k, w)]) ! j)))
       then fst ((p @ [(k, w)]) ! i) \<in> set rm' else fst ((p @ [(k, w)]) ! j) \<in> set rm'"
  show ?goal
  proof (cases "j < length p")
    case True
    with ij have eqs: "(p @ [(k, w)]) ! i = p ! i" "(p @ [(k, w)]) ! j = p ! j"
      by (simp_all add: nth_append)
    from old ij True ne fa
    have "if length (Entries (snd (p ! i))) < length (Entries (snd (p ! j)))
          then fst (p ! i) \<in> set rm else fst (p ! j) \<in> set rm"
      unfolding inv_pairs_def eqs by blast
    with sub show ?thesis unfolding eqs by (auto split: if_splits)
  next
    case False
    with ij have j: "j = length p" and i: "i < length p" by auto
    have eqs: "(p @ [(k, w)]) ! i = p ! i" "(p @ [(k, w)]) ! j = (k, w)"
      using i j by (simp_all add: nth_append)
    have mem: "(fst (p ! i), snd (p ! i)) \<in> set p" using i by simp
    from new [OF mem] ne fa show ?thesis unfolding eqs by simp
  qed
qed

lemma dedup_step_empty:
  assumes inv: "dedup_inv p idx rm" and fresh: "k \<notin> fst ` set p" and e: "Entries w = []"
  shows "dedup_inv (p @ [(k, w)]) idx (rm @ [k])"
proof -
  have "inv_rm (p @ [(k, w)]) (rm @ [k])"
    using inv by (auto simp: dedup_inv_def inv_rm_def)
  moreover have "inv_idx (p @ [(k, w)]) idx (rm @ [k])"
    unfolding inv_idx_def
  proof (intro allI impI)
    fix a ka assume "idx a = Some ka"
    with inv obtain wa where wa: "(ka, wa) \<in> set p" "Entries wa \<noteq> []" "firstAddr wa = a" "ka \<notin> set rm"
      "\<forall>(k2, w2)\<in>set p. Entries w2 \<noteq> [] \<and> firstAddr w2 = a \<longrightarrow> length (Entries w2) \<le> length (Entries wa)"
      unfolding dedup_inv_def inv_idx_def by blast
    from wa(1) fresh have "ka \<noteq> k" by force
    with wa e show "\<exists>wa. (ka, wa) \<in> set (p @ [(k, w)]) \<and> Entries wa \<noteq> [] \<and> firstAddr wa = a \<and> ka \<notin> set (rm @ [k])
            \<and> (\<forall>(k2, w2)\<in>set (p @ [(k, w)]). Entries w2 \<noteq> [] \<and> firstAddr w2 = a
                   \<longrightarrow> length (Entries w2) \<le> length (Entries wa))"
      by (intro exI [of _ wa]) auto
  qed
  moreover have "inv_live (p @ [(k, w)]) idx (rm @ [k])"
    using inv by (auto simp: dedup_inv_def inv_live_def)
  moreover have "inv_dom (p @ [(k, w)]) idx"
    using inv e by (auto simp: dedup_inv_def inv_dom_def)
  moreover have "inv_pairs (p @ [(k, w)]) (rm @ [k])"
    using inv e by (intro inv_pairs_snoc [of p rm]) (auto simp: dedup_inv_def)
  ultimately show ?thesis by (simp add: dedup_inv_def)
qed

text \<open>The wallet is the first with its address: the map records it.\<close>

lemma dedup_step_new:
  assumes inv: "dedup_inv p idx rm" and fresh: "k \<notin> fst ` set p" and ne: "Entries w \<noteq> []"
      and none: "idx (firstAddr w) = None"
  shows "dedup_inv (p @ [(k, w)]) (idx(firstAddr w \<mapsto> k)) rm"
proof -
  have nogroup: "\<not> (Entries w0 \<noteq> [] \<and> firstAddr w0 = firstAddr w)" if "(k0, w0) \<in> set p" for k0 w0
    using inv that none unfolding dedup_inv_def inv_dom_def by fastforce
  have knr: "k \<notin> set rm" using inv fresh by (auto simp: dedup_inv_def inv_rm_def)
  have "inv_rm (p @ [(k, w)]) rm"
    using inv by (auto simp: dedup_inv_def inv_rm_def)
  moreover have "inv_idx (p @ [(k, w)]) (idx(firstAddr w \<mapsto> k)) rm"
    unfolding inv_idx_def
  proof (intro allI impI)
    fix a ka assume h: "(idx(firstAddr w \<mapsto> k)) a = Some ka"
    show "\<exists>wa. (ka, wa) \<in> set (p @ [(k, w)]) \<and> Entries wa \<noteq> [] \<and> firstAddr wa = a \<and> ka \<notin> set rm
            \<and> (\<forall>(k2, w2)\<in>set (p @ [(k, w)]). Entries w2 \<noteq> [] \<and> firstAddr w2 = a
                   \<longrightarrow> length (Entries w2) \<le> length (Entries wa))"
    proof (cases "a = firstAddr w")
      case True
      with h have "ka = k" by simp
      with True ne knr nogroup show ?thesis by (intro exI [of _ w]) auto
    next
      case False
      with h have "idx a = Some ka" by simp
      with inv obtain wa where wa: "(ka, wa) \<in> set p" "Entries wa \<noteq> []" "firstAddr wa = a" "ka \<notin> set rm"
        "\<forall>(k2, w2)\<in>set p. Entries w2 \<noteq> [] \<and> firstAddr w2 = a \<longrightarrow> length (Entries w2) \<le> length (Entries wa)"
        unfolding dedup_inv_def inv_idx_def by blast
      with False show ?thesis by (intro exI [of _ wa]) auto
    qed
  qed
  moreover have "inv_live (p @ [(k, w)]) (idx(firstAddr w \<mapsto> k)) rm"
    using inv ne nogroup unfolding dedup_inv_def inv_live_def by fastforce
  moreover have "inv_dom (p @ [(k, w)]) (idx(firstAddr w \<mapsto> k))"
    using inv unfolding dedup_inv_def inv_dom_def by auto
  moreover have "inv_pairs (p @ [(k, w)]) rm"
    using inv nogroup by (intro inv_pairs_snoc [of p rm]) (auto simp: dedup_inv_def)
  ultimately show ?thesis by (simp add: dedup_inv_def)
qed

text \<open>The recorded wallet has at least as many entries: the visited one is marked.\<close>

lemma dedup_step_keep:
  assumes inv: "dedup_inv p idx rm" and fresh: "k \<notin> fst ` set p" and ne: "Entries w \<noteq> []"
      and some: "idx (firstAddr w) = Some wid" and pw: "(wid, pw) \<in> set p"
      and dist: "distinct (map fst p)"
      and ge: "length (Entries w) \<le> length (Entries pw)"
  shows "dedup_inv (p @ [(k, w)]) idx (rm @ [k])"
proof -
  from inv some obtain w1 where w1: "(wid, w1) \<in> set p" "Entries w1 \<noteq> []" "firstAddr w1 = firstAddr w"
      "wid \<notin> set rm"
      "\<forall>(k2, w2)\<in>set p. Entries w2 \<noteq> [] \<and> firstAddr w2 = firstAddr w \<longrightarrow> length (Entries w2) \<le> length (Entries w1)"
    unfolding dedup_inv_def inv_idx_def by blast
  from w1(1) pw dist have same: "w1 = pw" by (meson eq_key_imp_eq_value)
  have "inv_rm (p @ [(k, w)]) (rm @ [k])"
    using inv by (auto simp: dedup_inv_def inv_rm_def)
  moreover have "inv_idx (p @ [(k, w)]) idx (rm @ [k])"
    unfolding inv_idx_def
  proof (intro allI impI)
    fix a ka assume h: "idx a = Some ka"
    with inv obtain wa where wa: "(ka, wa) \<in> set p" "Entries wa \<noteq> []" "firstAddr wa = a" "ka \<notin> set rm"
      "\<forall>(k2, w2)\<in>set p. Entries w2 \<noteq> [] \<and> firstAddr w2 = a \<longrightarrow> length (Entries w2) \<le> length (Entries wa)"
      unfolding dedup_inv_def inv_idx_def by blast
    from wa(1) fresh have kk: "ka \<noteq> k" by force
    have "length (Entries w) \<le> length (Entries wa)" if "firstAddr w = a"
    proof -
      from that h some have "ka = wid" by simp
      with wa(1) w1(1) dist have "wa = w1" by (meson eq_key_imp_eq_value)
      with ge same show ?thesis by simp
    qed
    with wa kk show "\<exists>wa. (ka, wa) \<in> set (p @ [(k, w)]) \<and> Entries wa \<noteq> [] \<and> firstAddr wa = a \<and> ka \<notin> set (rm @ [k])
            \<and> (\<forall>(k2, w2)\<in>set (p @ [(k, w)]). Entries w2 \<noteq> [] \<and> firstAddr w2 = a
                   \<longrightarrow> length (Entries w2) \<le> length (Entries wa))"
      by (intro exI [of _ wa]) auto
  qed
  moreover have "inv_live (p @ [(k, w)]) idx (rm @ [k])"
    using inv by (auto simp: dedup_inv_def inv_live_def)
  moreover have "inv_dom (p @ [(k, w)]) idx"
    using inv some by (auto simp: dedup_inv_def inv_dom_def)
  moreover have "inv_pairs (p @ [(k, w)]) (rm @ [k])"
  proof (intro inv_pairs_snoc [of p rm])
    show "inv_pairs p rm" using inv by (simp add: dedup_inv_def)
    show "set rm \<subseteq> set (rm @ [k])" by auto
    fix k0 w0
    assume m: "(k0, w0) \<in> set p" and n0: "Entries w0 \<noteq> []" and fa: "firstAddr w0 = firstAddr w"
    show "if length (Entries w0) < length (Entries w) then k0 \<in> set (rm @ [k]) else k \<in> set (rm @ [k])"
    proof (cases "length (Entries w0) < length (Entries w)")
      case True
      have "k0 \<noteq> wid"
      proof
        assume "k0 = wid"
        with m w1(1) dist have "w0 = w1" by (meson eq_key_imp_eq_value)
        with True ge same show False by simp
      qed
      moreover have "k0 \<notin> set rm \<longrightarrow> idx (firstAddr w0) = Some k0"
        using inv m unfolding dedup_inv_def inv_live_def by fastforce
      ultimately have "k0 \<in> set rm" using some fa by auto
      with True show ?thesis by simp
    next
      case False
      then show ?thesis by simp
    qed
  qed
  ultimately show ?thesis by (simp add: dedup_inv_def)
qed

text \<open>The visited wallet has strictly more entries: the recorded one is marked.\<close>

lemma dedup_step_replace:
  assumes inv: "dedup_inv p idx rm" and fresh: "k \<notin> fst ` set p" and ne: "Entries w \<noteq> []"
      and some: "idx (firstAddr w) = Some wid" and pw: "(wid, pw) \<in> set p"
      and dist: "distinct (map fst p)"
      and lt: "length (Entries pw) < length (Entries w)"
  shows "dedup_inv (p @ [(k, w)]) (idx(firstAddr w \<mapsto> k)) (rm @ [wid])"
proof -
  from inv some obtain w1 where w1: "(wid, w1) \<in> set p" "Entries w1 \<noteq> []" "firstAddr w1 = firstAddr w"
      "wid \<notin> set rm"
      "\<forall>(k2, w2)\<in>set p. Entries w2 \<noteq> [] \<and> firstAddr w2 = firstAddr w \<longrightarrow> length (Entries w2) \<le> length (Entries w1)"
    unfolding dedup_inv_def inv_idx_def by blast
  from w1(1) pw dist have same: "w1 = pw" by (meson eq_key_imp_eq_value)
  have kw: "k \<noteq> wid" using pw fresh by force
  have knr: "k \<notin> set rm" using inv fresh by (auto simp: dedup_inv_def inv_rm_def)
  have live: "idx (firstAddr w0) = Some k0 \<and> Entries w0 \<noteq> []" if "(k0, w0) \<in> set p" "k0 \<notin> set rm" for k0 w0
    using inv that unfolding dedup_inv_def inv_live_def by fastforce
  have "inv_rm (p @ [(k, w)]) (rm @ [wid])"
    using inv pw by (force simp: dedup_inv_def inv_rm_def)
  moreover have "inv_idx (p @ [(k, w)]) (idx(firstAddr w \<mapsto> k)) (rm @ [wid])"
    unfolding inv_idx_def
  proof (intro allI impI)
    fix a ka assume h: "(idx(firstAddr w \<mapsto> k)) a = Some ka"
    show "\<exists>wa. (ka, wa) \<in> set (p @ [(k, w)]) \<and> Entries wa \<noteq> [] \<and> firstAddr wa = a \<and> ka \<notin> set (rm @ [wid])
            \<and> (\<forall>(k2, w2)\<in>set (p @ [(k, w)]). Entries w2 \<noteq> [] \<and> firstAddr w2 = a
                   \<longrightarrow> length (Entries w2) \<le> length (Entries wa))"
    proof (cases "a = firstAddr w")
      case True
      with h have "ka = k" by simp
      moreover have "length (Entries w2) \<le> length (Entries w)"
        if "(k2, w2) \<in> set p" "Entries w2 \<noteq> []" "firstAddr w2 = firstAddr w" for k2 w2
        using w1(5) that lt same by fastforce
      ultimately show ?thesis using True ne knr kw by (intro exI [of _ w]) auto
    next
      case False
      with h have ia: "idx a = Some ka" by simp
      with inv obtain wa where wa: "(ka, wa) \<in> set p" "Entries wa \<noteq> []" "firstAddr wa = a" "ka \<notin> set rm"
        "\<forall>(k2, w2)\<in>set p. Entries w2 \<noteq> [] \<and> firstAddr w2 = a \<longrightarrow> length (Entries w2) \<le> length (Entries wa)"
        unfolding dedup_inv_def inv_idx_def by blast
      have "ka \<noteq> wid"
      proof
        assume "ka = wid"
        with wa(1) w1(1) dist have "wa = w1" by (meson eq_key_imp_eq_value)
        with wa(3) w1(3) False show False by simp
      qed
      with wa False show ?thesis by (intro exI [of _ wa]) auto
    qed
  qed
  moreover have "inv_live (p @ [(k, w)]) (idx(firstAddr w \<mapsto> k)) (rm @ [wid])"
    unfolding inv_live_def
  proof (intro ballI, clarify)
    fix k0 w0 assume m: "(k0, w0) \<in> set (p @ [(k, w)])" and nr: "k0 \<notin> set (rm @ [wid])"
    show "Entries w0 \<noteq> [] \<and> (idx(firstAddr w \<mapsto> k)) (firstAddr w0) = Some k0"
    proof (cases "(k0, w0) = (k, w)")
      case True
      with ne show ?thesis by simp
    next
      case False
      with m have mp: "(k0, w0) \<in> set p" by auto
      from nr have "k0 \<notin> set rm" "k0 \<noteq> wid" by auto
      with live [OF mp] some have "firstAddr w0 \<noteq> firstAddr w" "idx (firstAddr w0) = Some k0" "Entries w0 \<noteq> []"
        by auto
      then show ?thesis by simp
    qed
  qed
  moreover have "inv_dom (p @ [(k, w)]) (idx(firstAddr w \<mapsto> k))"
    using inv unfolding dedup_inv_def inv_dom_def by auto
  moreover have "inv_pairs (p @ [(k, w)]) (rm @ [wid])"
  proof (intro inv_pairs_snoc [of p rm])
    show "inv_pairs p rm" using inv by (simp add: dedup_inv_def)
    show "set rm \<subseteq> set (rm @ [wid])" by auto
    fix k0 w0
    assume m: "(k0, w0) \<in> set p" and n0: "Entries w0 \<noteq> []" and fa: "firstAddr w0 = firstAddr w"
    from w1(5) m n0 fa same lt have less: "length (Entries w0) < length (Entries w)" by fastforce
    have "k0 \<in> set rm \<or> k0 = wid" using live [OF m] some fa by auto
    with less show "if length (Entries w0) < length (Entries w) then k0 \<in> set (rm @ [wid]) else k \<in> set (rm @ [wid])"
      by auto
  qed
  ultimately show ?thesis by (simp add: dedup_inv_def)
qed


lemma removeDup_loop_inv:
  assumes "dedup_inv p idx rm" and "distinct (map fst (p @ rest))"
  shows "\<exists>idx' rm'. removeDup_loop (map_of (p @ rest)) rest idx rm = Inr (idx', rm')
           \<and> dedup_inv (p @ rest) idx' rm'"
  using assms
proof (induction rest arbitrary: p idx rm)
  case Nil
  then show ?case by simp
next
  case (Cons kw rest)
  obtain k w where kw: "kw = (k, w)" by (cases kw)
  have app: "p @ kw # rest = (p @ [(k, w)]) @ rest" by (simp add: kw)
  from Cons.prems(2) have dist': "distinct (map fst ((p @ [(k, w)]) @ rest))"
    and fresh: "k \<notin> fst ` set p" and distp: "distinct (map fst p)"
    by (auto simp: kw)
  have next_step: "\<exists>idx' rm'. removeDup_loop (map_of (p @ kw # rest)) rest i r = Inr (idx', rm')
           \<and> dedup_inv (p @ kw # rest) idx' rm'" if "dedup_inv (p @ [(k, w)]) i r" for i r
    using Cons.IH [OF that dist'] by (simp add: kw)
  show ?case
  proof (cases "Entries w")
    case Nil
    from dedup_step_empty [OF Cons.prems(1) fresh Nil]
    show ?thesis using next_step Nil by (simp add: kw)
  next
    case (Cons e0 es)
    then have ne: "Entries w \<noteq> []" and fa: "firstAddr w = Address e0"
      by (simp_all add: firstAddr_def)
    show ?thesis
    proof (cases "idx (Address e0)")
      case None
      with dedup_step_new [OF Cons.prems(1) fresh ne] fa
      have "dedup_inv (p @ [(k, w)]) (idx(Address e0 \<mapsto> k)) rm" by simp
      from next_step [OF this] show ?thesis using None Cons by (simp add: kw)
    next
      case (Some wid)
      with Cons.prems(1) fa obtain pw where pw: "(wid, pw) \<in> set p"
        unfolding dedup_inv_def inv_idx_def by blast
      then have "(wid, pw) \<in> set (p @ kw # rest)" by simp
      with Cons.prems(2) have look: "map_of (p @ kw # rest) wid = Some pw"
        by (intro map_of_is_SomeI) auto
      from Some fa have some: "idx (firstAddr w) = Some wid" by simp
      show ?thesis
      proof (cases "length (Entries w) \<le> length (Entries pw)")
        case True
        from dedup_step_keep [OF Cons.prems(1) fresh ne some pw distp True]
        show ?thesis using next_step Some Cons look True by (simp add: kw)
      next
        case False
        then have lt: "length (Entries pw) < length (Entries w)" by simp
        from dedup_step_replace [OF Cons.prems(1) fresh ne some pw distp lt] fa
        have "dedup_inv (p @ [(k, w)]) (idx(Address e0 \<mapsto> k)) (rm @ [wid])" by simp
        from next_step [OF this] show ?thesis using Some Cons look False by (simp add: kw)
      qed
    qed
  qed
qed

lemma removeDup_result:
  assumes dist: "distinct (map fst wlts)" and empty: "firstAddrIDMap serv = Map.empty"
  shows "\<exists>idx rm. removeDup serv wlts
             = Inr (filter (\<lambda>kw. fst kw \<notin> set rm) wlts, serv\<lparr>firstAddrIDMap := idx\<rparr>)
           \<and> dedup_inv wlts idx rm"
proof -
  from removeDup_loop_inv [OF dedup_inv_empty, of wlts] dist
  obtain idx rm where "removeDup_loop (map_of wlts) wlts Map.empty [] = Inr (idx, rm)"
    and "dedup_inv wlts idx rm" by auto
  then show ?thesis using empty by (auto simp: removeDup_def)
qed

text \<open>
  Claim C4, as stated, fails where three wallets share a first address: of the pair a
  (3 entries) and b (5 entries) the one with strictly more entries, b, does not
  survive, because d (7 entries) replaces it; only d is left.
\<close>

theorem removeDup_pair_winner_counterexample:
  "distinct (map fst loaded3)
   \<and> firstAddr (snd (loaded3 ! 0)) = firstAddr (snd (loaded3 ! 1))
   \<and> length (Entries (snd (loaded3 ! 0))) < length (Entries (snd (loaded3 ! 1)))
   \<and> map_sum id fst (removeDup serv_fresh loaded3) = Inr [loaded3 ! 2]
   \<and> loaded3 ! 1 \<noteq> loaded3 ! 2"
proof -
  have addr: "Address (entry_at a) = a" for a by (simp add: entry_at_def)
  have ent: "Entries (wallet_with nm es) = es" for nm es by (simp add: wallet_with_def)
  show ?thesis
    by (simp add: removeDup_def loaded3_def serv_fresh_def firstAddr_def addr ent)
qed

text \<open>
  Claim C4, amended. \<open>removeDup\<close>, started with an empty first-address map (as \<open>NewService\<close>
  and \<open>ReloadWallets\<close> start it) on loaded wallets with distinct ids, returns without a
  panic; the survivors are loaded wallets in their order and none has zero entries. A
  wallet survives exactly when it has entries, strictly more than every wallet with the
  same first address visited before it and at least as many as every such wallet
  visited after it. So of two wallets sharing a first address the one with strictly
  fewer entries is removed, on equal counts the later one is removed, and each address
  keeps one survivor, with the most entries. Survivors have pairwise distinct first
  addresses, and the first-address map holds exactly the pairs of a survivor's first
  address and its id.
\<close>

theorem removeDup_keeps_first_largest:
  assumes dist: "distinct (map fst wlts)" and empty: "firstAddrIDMap serv = Map.empty"
  shows "\<exists>survivors serv'.
           removeDup serv wlts = Inr (survivors, serv')
         \<and> survivors = filter (\<lambda>kw. kw \<in> set survivors) wlts
         \<and> (\<forall>kw\<in>set survivors. Entries (snd kw) \<noteq> [])
         \<and> (\<forall>i<length wlts.
              wlts ! i \<in> set survivors \<longleftrightarrow>
                Entries (snd (wlts ! i)) \<noteq> []
              \<and> (\<forall>j<length wlts.
                    j \<noteq> i \<and> Entries (snd (wlts ! j)) \<noteq> []
                    \<and> firstAddr (snd (wlts ! j)) = firstAddr (snd (wlts ! i))
                    \<longrightarrow> (if j < i then length (Entries (snd (wlts ! j))) < length (Entries (snd (wlts ! i)))
                         else length (Entries (snd (wlts ! j))) \<le> length (Entries (snd (wlts ! i))))))
         \<and> (\<forall>i j. i < j \<and> j < length wlts
                \<and> Entries (snd (wlts ! i)) \<noteq> [] \<and> Entries (snd (wlts ! j)) \<noteq> []
                \<and> firstAddr (snd (wlts ! i)) = firstAddr (snd (wlts ! j))
                \<longrightarrow> (if length (Entries (snd (wlts ! i))) < length (Entries (snd (wlts ! j)))
                     then wlts ! i \<notin> set survivors else wlts ! j \<notin> set survivors))
         \<and> (\<forall>kw\<in>set wlts. Entries (snd kw) \<noteq> [] \<longrightarrow>
                (\<exists>kw'\<in>set survivors. firstAddr (snd kw') = firstAddr (snd kw)
                     \<and> length (Entries (snd kw)) \<le> length (Entries (snd kw'))))
         \<and> distinct (map (\<lambda>kw. firstAddr (snd kw)) survivors)
         \<and> (\<forall>a k. firstAddrIDMap serv' a = Some k \<longleftrightarrow>
                (\<exists>w. (k, w) \<in> set survivors \<and> firstAddr w = a))
         \<and> wallets serv' = wallets serv \<and> dirlog serv' = dirlog serv"
proof -
  from removeDup_result [OF dist empty] obtain idx rm where
    res: "removeDup serv wlts = Inr (filter (\<lambda>kw. fst kw \<notin> set rm) wlts, serv\<lparr>firstAddrIDMap := idx\<rparr>)"
    and inv: "dedup_inv wlts idx rm" by blast
  let ?S = "filter (\<lambda>kw. fst kw \<notin> set rm) wlts"
  have I_idx: "\<exists>w. (k, w) \<in> set wlts \<and> Entries w \<noteq> [] \<and> firstAddr w = a \<and> k \<notin> set rm
            \<and> (\<forall>k2 w2. (k2, w2) \<in> set wlts \<and> Entries w2 \<noteq> [] \<and> firstAddr w2 = a
                   \<longrightarrow> length (Entries w2) \<le> length (Entries w))" if "idx a = Some k" for a k
  proof -
    from inv that obtain w where w: "(k, w) \<in> set wlts" "Entries w \<noteq> []" "firstAddr w = a" "k \<notin> set rm"
      "\<forall>(k2, w2)\<in>set wlts. Entries w2 \<noteq> [] \<and> firstAddr w2 = a
                   \<longrightarrow> length (Entries w2) \<le> length (Entries w)"
      unfolding dedup_inv_def inv_idx_def by blast
    from w(5) have "\<forall>k2 w2. (k2, w2) \<in> set wlts \<and> Entries w2 \<noteq> [] \<and> firstAddr w2 = a
                   \<longrightarrow> length (Entries w2) \<le> length (Entries w)" by fast
    with w(1-4) show ?thesis by (intro exI [of _ w]) simp
  qed
  have I_live: "Entries w \<noteq> [] \<and> idx (firstAddr w) = Some k" if "(k, w) \<in> set wlts" "k \<notin> set rm" for k w
    using inv that unfolding dedup_inv_def inv_live_def by fast
  have I_dom: "idx (firstAddr w) \<noteq> None" if "(k, w) \<in> set wlts" "Entries w \<noteq> []" for k w
    using inv that unfolding dedup_inv_def inv_dom_def by fast
  have I_pairs: "if length (Entries (snd (wlts ! i))) < length (Entries (snd (wlts ! j)))
               then fst (wlts ! i) \<in> set rm else fst (wlts ! j) \<in> set rm"
    if "i < j" "j < length wlts" "Entries (snd (wlts ! i)) \<noteq> []" "Entries (snd (wlts ! j)) \<noteq> []"
       "firstAddr (snd (wlts ! i)) = firstAddr (snd (wlts ! j))" for i j
    using inv that unfolding dedup_inv_def inv_pairs_def by blast
  have nth_in: "(fst (wlts ! i), snd (wlts ! i)) \<in> set wlts" if "i < length wlts" for i
    using that by simp
  have c1: "?S = filter (\<lambda>kw. kw \<in> set ?S) wlts"
    by (rule filter_cong) auto
  have c2: "\<forall>kw\<in>set ?S. Entries (snd kw) \<noteq> []"
  proof
    fix kw assume "kw \<in> set ?S"
    then have "(fst kw, snd kw) \<in> set wlts" "fst kw \<notin> set rm" by simp_all
    from I_live [OF this] show "Entries (snd kw) \<noteq> []" by simp
  qed
  have c3: "wlts ! i \<in> set ?S \<longleftrightarrow>
                Entries (snd (wlts ! i)) \<noteq> []
              \<and> (\<forall>j<length wlts.
                    j \<noteq> i \<and> Entries (snd (wlts ! j)) \<noteq> []
                    \<and> firstAddr (snd (wlts ! j)) = firstAddr (snd (wlts ! i))
                    \<longrightarrow> (if j < i then length (Entries (snd (wlts ! j))) < length (Entries (snd (wlts ! i)))
                         else length (Entries (snd (wlts ! j))) \<le> length (Entries (snd (wlts ! i)))))"
    (is "?L \<longleftrightarrow> ?ne \<and> ?R") if i: "i < length wlts" for i
  proof
    assume L: ?L
    then have nr: "fst (wlts ! i) \<notin> set rm" by simp
    have ne: ?ne
      using I_live [OF nth_in [OF i] nr] by simp
    have "if j < i then length (Entries (snd (wlts ! j))) < length (Entries (snd (wlts ! i)))
                         else length (Entries (snd (wlts ! j))) \<le> length (Entries (snd (wlts ! i)))"
      if j: "j < length wlts" "j \<noteq> i" "Entries (snd (wlts ! j)) \<noteq> []"
            "firstAddr (snd (wlts ! j)) = firstAddr (snd (wlts ! i))" for j
    proof (cases "j < i")
      case True
      from I_pairs [OF True i j(3) ne j(4)] nr True show ?thesis by (simp split: if_splits)
    next
      case False
      with j(2) have "i < j" by simp
      from I_pairs [OF this j(1) ne j(3) j(4) [symmetric]] nr False show ?thesis
        by (simp split: if_splits)
    qed
    then have ?R by simp
    with ne show "?ne \<and> ?R" by (rule conjI)
  next
    assume "?ne \<and> ?R"
    then have ne: ?ne and R: ?R by simp_all
    show ?L
    proof (rule ccontr)
      assume "\<not> ?L"
      with i have marked: "fst (wlts ! i) \<in> set rm" by simp
      from I_dom [OF nth_in [OF i] ne]
      obtain k' where k': "idx (firstAddr (snd (wlts ! i))) = Some k'" by auto
      from I_idx [OF k'] obtain w' where w': "(k', w') \<in> set wlts" "Entries w' \<noteq> []"
        "firstAddr w' = firstAddr (snd (wlts ! i))" "k' \<notin> set rm"
        and mx: "\<forall>k2 w2. (k2, w2) \<in> set wlts \<and> Entries w2 \<noteq> [] \<and> firstAddr w2 = firstAddr (snd (wlts ! i))
                   \<longrightarrow> length (Entries w2) \<le> length (Entries w')"
        by blast
      from w'(1) obtain j where j: "j < length wlts" "wlts ! j = (k', w')"
        by (auto simp: in_set_conv_nth)
      from marked w'(4) j have ji: "j \<noteq> i" by auto
      have big: "length (Entries (snd (wlts ! i))) \<le> length (Entries w')"
        using mx [rule_format, of "fst (wlts ! i)" "snd (wlts ! i)"] nth_in [OF i] ne by simp
      from j ji w'(2,3) R [rule_format, of j]
      have cmp: "if j < i then length (Entries w') < length (Entries (snd (wlts ! i)))
                         else length (Entries w') \<le> length (Entries (snd (wlts ! i)))"
        by (cases "j < i") simp_all
      show False
      proof (cases "j < i")
        case True
        with cmp big show False by simp
      next
        case False
        with ji have ij: "i < j" by simp
        have "Entries (snd (wlts ! j)) \<noteq> []" "firstAddr (snd (wlts ! i)) = firstAddr (snd (wlts ! j))"
          using j w'(2,3) by simp_all
        from I_pairs [OF ij j(1) ne this] j have
          "if length (Entries (snd (wlts ! i))) < length (Entries w')
               then fst (wlts ! i) \<in> set rm else k' \<in> set rm" by (simp split: if_splits)
        with cmp False big w'(4) show False by (simp split: if_splits)
      qed
    qed
  qed
  have c4: "if length (Entries (snd (wlts ! i))) < length (Entries (snd (wlts ! j)))
                     then wlts ! i \<notin> set ?S else wlts ! j \<notin> set ?S"
    if "i < j \<and> j < length wlts \<and> Entries (snd (wlts ! i)) \<noteq> [] \<and> Entries (snd (wlts ! j)) \<noteq> []
       \<and> firstAddr (snd (wlts ! i)) = firstAddr (snd (wlts ! j))" for i j
  proof -
    from that have h: "i < j" "j < length wlts" "Entries (snd (wlts ! i)) \<noteq> []" "Entries (snd (wlts ! j)) \<noteq> []"
       "firstAddr (snd (wlts ! i)) = firstAddr (snd (wlts ! j))" by simp_all
    from I_pairs [OF h] show ?thesis by (simp split: if_splits)
  qed
  have c5: "\<exists>kw'\<in>set ?S. firstAddr (snd kw') = firstAddr (snd kw)
                     \<and> length (Entries (snd kw)) \<le> length (Entries (snd kw'))"
    if kw: "kw \<in> set wlts" and ne: "Entries (snd kw) \<noteq> []" for kw
  proof -
    from kw have m: "(fst kw, snd kw) \<in> set wlts" by simp
    from I_dom [OF m ne] obtain k' where k': "idx (firstAddr (snd kw)) = Some k'" by auto
    from I_idx [OF k'] obtain w' where w': "(k', w') \<in> set wlts" "Entries w' \<noteq> []"
        "firstAddr w' = firstAddr (snd kw)" "k' \<notin> set rm"
        and mx: "\<forall>k2 w2. (k2, w2) \<in> set wlts \<and> Entries w2 \<noteq> [] \<and> firstAddr w2 = firstAddr (snd kw)
                   \<longrightarrow> length (Entries w2) \<le> length (Entries w')"
      by blast
    have "length (Entries (snd kw)) \<le> length (Entries w')"
      using mx [rule_format, of "fst kw" "snd kw"] m ne by simp
    with w' show ?thesis by (intro bexI [of _ "(k', w')"]) simp_all
  qed
  have c6: "distinct (map (\<lambda>kw. firstAddr (snd kw)) ?S)"
  proof -
    have "distinct wlts" using dist by (simp add: distinct_map)
    then have d: "distinct ?S" by simp
    have "inj_on (\<lambda>kw. firstAddr (snd kw)) (set ?S)"
    proof (rule inj_onI)
      fix x y assume x: "x \<in> set ?S" and y: "y \<in> set ?S"
        and e: "firstAddr (snd x) = firstAddr (snd y)"
      from x have mx: "(fst x, snd x) \<in> set wlts" and nx: "fst x \<notin> set rm" by simp_all
      from y have my: "(fst y, snd y) \<in> set wlts" and ny: "fst y \<notin> set rm" by simp_all
      from I_live [OF mx nx] I_live [OF my ny] e have k: "fst x = fst y" by simp
      from mx my k have "(fst x, snd y) \<in> set wlts" by simp
      with mx dist have "snd x = snd y" by (rule_tac eq_key_imp_eq_value)
      with k show "x = y" by (simp add: prod_eq_iff)
    qed
    with d show ?thesis by (simp add: distinct_map)
  qed
  have c7: "idx a = Some k \<longleftrightarrow> (\<exists>w. (k, w) \<in> set ?S \<and> firstAddr w = a)" for a k
  proof
    assume "idx a = Some k"
    from I_idx [OF this] show "\<exists>w. (k, w) \<in> set ?S \<and> firstAddr w = a" by auto
  next
    assume "\<exists>w. (k, w) \<in> set ?S \<and> firstAddr w = a"
    then obtain w where "(k, w) \<in> set wlts" "k \<notin> set rm" "firstAddr w = a" by auto
    with I_live [of k w] show "idx a = Some k" by simp
  qed
  show ?thesis
  proof (intro exI [of _ ?S] exI [of _ "serv\<lparr>firstAddrIDMap := idx\<rparr>"] conjI)
    show "removeDup serv wlts = Inr (?S, serv\<lparr>firstAddrIDMap := idx\<rparr>)" by (rule res)
    show "?S = filter (\<lambda>kw. kw \<in> set ?S) wlts" by (rule c1)
    show "\<forall>kw\<in>set ?S. Entries (snd kw) \<noteq> []" by (rule c2)
    show "\<forall>i<length wlts.
              wlts ! i \<in> set ?S \<longleftrightarrow>
                Entries (snd (wlts ! i)) \<noteq> []
              \<and> (\<forall>j<length wlts.
                    j \<noteq> i \<and> Entries (snd (wlts ! j)) \<noteq> []
                    \<and> firstAddr (snd (wlts ! j)) = firstAddr (snd (wlts ! i))
                    \<longrightarrow> (if j < i then length (Entries (snd (wlts ! j))) < length (Entries (snd (wlts ! i)))
                         else length (Entries (snd (wlts ! j))) \<le> length (Entries (snd (wlts ! i)))))"
      by (intro allI impI c3)
    show "\<forall>i j. i < j \<and> j < length wlts
                \<and> Entries (snd (wlts ! i)) \<noteq> [] \<and> Entries (snd (wlts ! j)) \<noteq> []
                \<and> firstAddr (snd (wlts ! i)) = firstAddr (snd (wlts ! j))
                \<longrightarrow> (if length (Entries (snd (wlts ! i))) < length (Entries (snd (wlts ! j)))
                     then wlts ! i \<notin> set ?S else wlts ! j \<notin> set ?S)"
      by (intro allI impI c4)
    show "\<forall>kw\<in>set wlts. Entries (snd kw) \<noteq> [] \<longrightarrow>
                (\<exists>kw'\<in>set ?S. firstAddr (snd kw') = firstAddr (snd kw)
                     \<and> length (Entries (snd kw)) \<le> length (Entries (snd kw')))"
      by (intro ballI impI c5)
    show "distinct (map (\<lambda>kw. firstAddr (snd kw)) ?S)" by (rule c6)
    show "\<forall>a k. firstAddrIDMap (serv\<lparr>firstAddrIDMap := idx\<rparr>) a = Some k \<longleftrightarrow>
                (\<exists>w. (k, w) \<in> set ?S \<and> firstAddr w = a)"
      using c7 by simp
    show "wallets (serv\<lparr>firstAddrIDMap := idx\<rparr>) = wallets serv" by simp
    show "dirlog (serv\<lparr>firstAddrIDMap := idx\<rparr>) = dirlog serv" by simp
  qed
qed


theorem removeDup_keeps_first_largest_witness:
  "distinct (map fst loaded5) \<and> firstAddrIDMap serv_fresh = Map.empty
   \<and> map_sum id (\<lambda>r. (map fst (fst r), map (firstAddrIDMap (snd r)) [''Ax'', ''Ay'', ''Az'']))
        (removeDup serv_fresh loaded5)
       = Inr ([''b'', ''e''], [Some ''b'', None, Some ''e''])
   \<and> (\<exists>survivors serv'. removeDup serv_fresh loaded5 = Inr (survivors, serv')
         \<and> distinct (map (\<lambda>kw. firstAddr (snd kw)) survivors)
         \<and> loaded5 ! 0 \<notin> set survivors \<and> loaded5 ! 3 \<notin> set survivors)"
proof -
  have addr: "Address (entry_at a) = a" for a by (simp add: entry_at_def)
  have ent: "Entries (wallet_with nm es) = es" for nm es by (simp add: wallet_with_def)
  have dist: "distinct (map fst loaded5)" by (simp add: loaded5_def)
  have empty: "firstAddrIDMap serv_fresh = Map.empty" by (simp add: serv_fresh_def)
  have run: "map_sum id (\<lambda>r. (map fst (fst r), map (firstAddrIDMap (snd r)) [''Ax'', ''Ay'', ''Az'']))
        (removeDup serv_fresh loaded5)
       = Inr ([''b'', ''e''], [Some ''b'', None, Some ''e''])"
    by (simp add: removeDup_def loaded5_def serv_fresh_def addr ent)
  have e0: "Entries (snd (loaded5 ! 0)) \<noteq> []" "Entries (snd (loaded5 ! 1)) \<noteq> []"
      "Entries (snd (loaded5 ! 3)) \<noteq> []"
    by (simp_all add: loaded5_def ent)
  have fa: "firstAddr (snd (loaded5 ! 0)) = firstAddr (snd (loaded5 ! 1))"
     "firstAddr (snd (loaded5 ! 1)) = firstAddr (snd (loaded5 ! 3))"
    by (simp_all add: loaded5_def ent addr firstAddr_def)
  have len: "length (Entries (snd (loaded5 ! 0))) < length (Entries (snd (loaded5 ! 1)))"
     "\<not> length (Entries (snd (loaded5 ! 1))) < length (Entries (snd (loaded5 ! 3)))"
    by (simp_all add: loaded5_def ent)
  have n: "length loaded5 = 5" by (simp add: loaded5_def)
  from removeDup_keeps_first_largest [OF dist empty]
  show ?thesis
  proof (elim exE conjE)
    fix survivors serv'
    assume r: "removeDup serv_fresh loaded5 = Inr (survivors, serv')"
      and d: "distinct (map (\<lambda>kw. firstAddr (snd kw)) survivors)"
      and pairs: "\<forall>i j. i < j \<and> j < length loaded5
                \<and> Entries (snd (loaded5 ! i)) \<noteq> [] \<and> Entries (snd (loaded5 ! j)) \<noteq> []
                \<and> firstAddr (snd (loaded5 ! i)) = firstAddr (snd (loaded5 ! j))
                \<longrightarrow> (if length (Entries (snd (loaded5 ! i))) < length (Entries (snd (loaded5 ! j)))
                     then loaded5 ! i \<notin> set survivors else loaded5 ! j \<notin> set survivors)"
    from pairs [rule_format, of 0 1] e0 fa len n have out0: "loaded5 ! 0 \<notin> set survivors" by simp
    from pairs [rule_format, of 1 3] e0 fa len n have out3: "loaded5 ! 3 \<notin> set survivors" by simp
    have "\<exists>survivors serv'. removeDup serv_fresh loaded5 = Inr (survivors, serv')
         \<and> distinct (map (\<lambda>kw. firstAddr (snd kw)) survivors)
         \<and> loaded5 ! 0 \<notin> set survivors \<and> loaded5 ! 3 \<notin> set survivors"
      using r d out0 out3 by (intro exI [of _ survivors] exI [of _ serv']) simp
    with dist empty run show ?thesis by (intro conjI)
  qed
qed



end
